theory Spec2Isabelle
  imports Complex_Main "HOL-Library.AList"
begin

section \<open>Data model of \<open>ant_nest/ant.py\<close>\<close>

text \<open>
  Exceptions are instances of Python's \<open>Exception\<close>: a class name, a message and the
  exception it was raised from (\<open>__cause__\<close>).
\<close>

datatype exn = Exn (exn_class: string) (exn_msg: string) (exn_cause: "exn option")

text \<open>
  A bound handed to \<open>async_timeout.timeout\<close>: seconds, or \<open>None\<close> for no bound.
  \<open>DEFAULT_TIMEOUT\<close> is the constant imported from \<open>aiohttp.client\<close> (five minutes).
\<close>

type_synonym timeout = "real option"

definition DEFAULT_TIMEOUT :: timeout where
  "DEFAULT_TIMEOUT = Some (5 * 60)"

text \<open>A Python \<open>dict\<close> of strings, in insertion order.\<close>

type_synonym pydict = "(string \<times> string) list"

record request =
  url_host :: "string option"
  url :: string
  req_method :: string
  params :: "pydict option"
  req_headers :: "pydict option"
  req_cookies :: "pydict option"
  req_data :: "string option"

text \<open>What the transport hands back (\<open>aiohttp.ClientResponse\<close>), and the \<open>Response\<close> built from it.\<close>

record aio_response =
  aio_status :: int
  aio_content :: string
  aio_headers :: pydict
  aio_cookies :: pydict
  aio_encoding :: string

record response =
  res_request :: request
  status :: int
  content :: string
  res_headers :: pydict
  res_cookies :: pydict
  encoding :: string

text \<open>
  The values a pipeline stage may receive and return: the three kinds of Thing,
  \<open>None\<close>, an exception instance, or any other object (known by its class name).
\<close>

datatype val =
    RequestV request
  | ResponseV response
  | ItemV pydict
  | NoneV
  | ExcV exn
  | ObjV string

text \<open>\<open>thing.__class__.__name__\<close>\<close>

fun type_name :: "val \<Rightarrow> string" where
  "type_name (RequestV _) = ''Request''"
| "type_name (ResponseV _) = ''Response''"
| "type_name (ItemV _) = ''Item''"
| "type_name NoneV = ''NoneType''"
| "type_name (ExcV e) = exn_class e"
| "type_name (ObjV c) = c"

text \<open>
  What \<open>pipeline.process(thing)\<close> does: it returns a plain value, returns a coroutine
  (whose awaited outcome depends on the bound it is awaited under: a value, an exception
  of its own, or the timeout error), or raises.
\<close>

datatype proc_result =
    Plain val
  | Coro "timeout \<Rightarrow> exn + val"
  | Raises exn

text \<open>
  A lifecycle hook returns, returns a coroutine (awaited without a bound), or raises.
  A pipeline record tells what each of the three operations does when the orchestrator
  invokes it; a pipeline that keeps state of its own is described by the behaviour it
  shows at that invocation.
\<close>

datatype hook_result =
    HookReturns
  | HookCoro "exn option"
  | HookRaises exn

record pipeline =
  pname :: string
  process :: "val \<Rightarrow> proc_result"
  on_spider_open :: hook_result
  on_spider_close :: hook_result

text \<open>A pooled \<open>ClientSession\<close>: its identity as an object, and its cookie jar.\<close>

record session =
  sid :: nat
  cookie_jar :: pydict

text \<open>The keyword arguments of \<open>session.request\<close>.\<close>

record kwargs =
  kw_url :: string
  kw_method :: string
  kw_params :: "pydict option"
  kw_headers :: "pydict option"
  kw_data :: "string option"
  kw_proxy :: "string option"
  kw_max_redirects :: int
  kw_allow_redirects :: bool

text \<open>A proxy URL, with the encoded basic-auth header of its user part when it has one.\<close>

record proxy =
  proxy_url :: string
  proxy_auth :: "string option"

text \<open>The messages written with \<open>logger.info\<close>; \<open>logger.debug\<close> is not modelled.\<close>

datatype info =
    Opening
  | Closed
  | GetRate int string int int
  | DropRate int string int int
  | GetTotal int string
  | DropTotal int string
  | RunTime string real

text \<open>Everything the orchestrator does to its collaborators, in the order it does it.\<close>

datatype event =
    Process string val
  | Await string timeout
  | SpiderOpen string
  | SpiderClose string
  | NewSession nat "string option"
  | SessionRequest nat kwargs
  | SessionClose nat
  | Sleep real
  | WaitScheduled
  | LogInfo info
  | LogException string

text \<open>A counter pair \<open>[counts[0], counts[1]]\<close> per class name: the baseline and the total.\<close>

type_synonym counters = "(string \<times> int \<times> int) list"

text \<open>
  The \<open>Ant\<close> object: its class attributes, the fields set by \<open>__init__\<close>, and the
  collaborators it talks to. The clock gives the successive readings of \<open>time.time()\<close>;
  \<open>net\<close> gives the outcome of the n-th network exchange under a bound;
  \<open>session_close\<close> gives what closing a session raises, if anything.
  \<open>_report_slot\<close> is an integer number of seconds: \<open>__init__\<close> sets it to 60 and the
  log lines of \<open>report\<close> format it with \<open>{:d}\<close>.
\<close>

record ant =
  class_name :: string
  response_pipelines :: "pipeline list"
  request_pipelines :: "pipeline list"
  item_pipelines :: "pipeline list"
  request_timeout :: timeout
  request_retries :: int
  request_retry_delay :: real
  request_proxy :: "proxy option"
  request_max_redirects :: int
  request_allow_redirects :: bool
  sessions :: "(string option \<times> session) list"
  reports :: counters
  drop_reports :: counters
  start_time :: real
  last_time :: real
  report_slot :: int
  clock :: "nat \<Rightarrow> real"
  ticks :: nat
  net :: "nat \<Rightarrow> timeout \<Rightarrow> kwargs \<Rightarrow> exn + aio_response"
  sent :: nat
  session_close :: "nat \<Rightarrow> exn option"
  created :: nat
  trace :: "event list"

definition emit :: "event list \<Rightarrow> ant \<Rightarrow> ant" where
  "emit evs s = s\<lparr>trace := trace s @ evs\<rparr>"

text \<open>\<open>time.time()\<close>: the next reading of the clock.\<close>

definition time_time :: "ant \<Rightarrow> real \<times> ant" where
  "time_time s = (clock s (ticks s), s\<lparr>ticks := Suc (ticks s)\<rparr>)"

text \<open>\<open>Ant.__init__\<close>\<close>

definition init :: "ant \<Rightarrow> ant" where
  "init s =
    (let (now, s1) = time_time s
     in s1\<lparr>sessions := [], reports := [], drop_reports := [],
           start_time := now, last_time := now, report_slot := 60\<rparr>)"

section \<open>\<open>report\<close>\<close>

text \<open>The two loops of the periodic flush: one log line per tracked name, then the new baseline.\<close>

definition flush_lines :: "(int \<Rightarrow> string \<Rightarrow> int \<Rightarrow> int \<Rightarrow> info) \<Rightarrow> int \<Rightarrow> counters \<Rightarrow> event list" where
  "flush_lines line slot cs = map (\<lambda>(name, c0, c1). LogInfo (line c1 name (c1 - c0) slot)) cs"

definition rebaseline :: "counters \<Rightarrow> counters" where
  "rebaseline cs = map (\<lambda>(name, c0, c1). (name, c1, c1)) cs"

text \<open>\<open>counts = reports[report_type]; counts[1] += 1\<close> on a \<open>defaultdict(lambda: [0, 0])\<close>\<close>

fun bump :: "string \<Rightarrow> counters \<Rightarrow> counters" where
  "bump k [] = [(k, 0, 1)]"
| "bump k ((name, c0, c1) # cs) =
     (if name = k then (name, c0, c1 + 1) # cs else (name, c0, c1) # bump k cs)"

definition report :: "val \<Rightarrow> bool \<Rightarrow> ant \<Rightarrow> ant" where
  "report thing dropped s =
    (let (now_time, s1) = time_time s;
         s2 = (if now_time - last_time s1 > real_of_int (report_slot s1)
               then emit (flush_lines GetRate (report_slot s1) (reports s1)
                          @ flush_lines DropRate (report_slot s1) (drop_reports s1))
                      (s1\<lparr>last_time := now_time,
                          reports := rebaseline (reports s1),
                          drop_reports := rebaseline (drop_reports s1)\<rparr>)
               else s1);
         report_type = type_name thing
     in if dropped then s2\<lparr>drop_reports := bump report_type (drop_reports s2)\<rparr>
        else s2\<lparr>reports := bump report_type (reports s2)\<rparr>)"

section \<open>The pipeline runner\<close>

text \<open>
  \<open>_handle_thing_with_pipelines\<close>: the loop over the stages, with \<open>raw_thing\<close> kept
  from before the loop. A stage that raises, or whose coroutine fails or times out,
  leaves the loop with that exception and without a report.
\<close>

fun handle_loop :: "val \<Rightarrow> timeout \<Rightarrow> pipeline list \<Rightarrow> val \<Rightarrow> ant \<Rightarrow> (exn + val) \<times> ant" where
  "handle_loop raw_thing t [] thing s = (Inr thing, s)"
| "handle_loop raw_thing t (p # ps) thing s =
    (let s1 = emit [Process (pname p) thing] s
     in case process p thing of
          Raises e \<Rightarrow> (Inl e, s1)
        | Plain v \<Rightarrow>
            (case v of
               ExcV e \<Rightarrow> (Inl e, report raw_thing True s1)
             | _ \<Rightarrow> handle_loop raw_thing t ps v s1)
        | Coro c \<Rightarrow>
            (let s2 = emit [Await (pname p) t] s1
             in case c t of
                  Inl e \<Rightarrow> (Inl e, s2)
                | Inr v \<Rightarrow>
                    (case v of
                       ExcV e \<Rightarrow> (Inl e, report raw_thing True s2)
                     | _ \<Rightarrow> handle_loop raw_thing t ps v s2)))"

definition handle_thing_with_pipelines ::
    "val \<Rightarrow> pipeline list \<Rightarrow> timeout \<Rightarrow> ant \<Rightarrow> (exn + val) \<times> ant" where
  "handle_thing_with_pipelines thing pipelines t s = handle_loop thing t pipelines thing s"

text \<open>\<open>collect\<close>: the default bound of the runner, then the report of the item itself.\<close>

definition collect :: "val \<Rightarrow> ant \<Rightarrow> (exn + val) \<times> ant" where
  "collect item s =
    (case handle_thing_with_pipelines item (item_pipelines s) DEFAULT_TIMEOUT s of
       (Inl e, s1) \<Rightarrow> (Inl e, s1)
     | (Inr _, s1) \<Rightarrow> (Inr NoneV, report item False s1))"

section \<open>\<open>open\<close>, \<open>close\<close> and \<open>main\<close>\<close>

text \<open>What the \<open>try\<close> block around a hook catches: nothing, or the exception.\<close>

fun hook_failure :: "hook_result \<Rightarrow> exn option" where
  "hook_failure HookReturns = None"
| "hook_failure (HookCoro r) = r"
| "hook_failure (HookRaises e) = Some e"

fun open_pipelines :: "pipeline list \<Rightarrow> ant \<Rightarrow> ant" where
  "open_pipelines [] s = s"
| "open_pipelines (p # ps) s =
     open_pipelines ps
       (case hook_failure (on_spider_open p) of
          None \<Rightarrow> emit [SpiderOpen (pname p)] s
        | Some e \<Rightarrow>
            emit [SpiderOpen (pname p), LogException (''Open pipelines with '' @ exn_class e)] s)"

definition open_ant :: "ant \<Rightarrow> ant" where
  "open_ant s =
     open_pipelines (item_pipelines s @ response_pipelines s @ request_pipelines s)
       (emit [LogInfo Opening] s)"

fun close_pipelines :: "pipeline list \<Rightarrow> ant \<Rightarrow> ant" where
  "close_pipelines [] s = s"
| "close_pipelines (p # ps) s =
     close_pipelines ps
       (case hook_failure (on_spider_close p) of
          None \<Rightarrow> emit [SpiderClose (pname p)] s
        | Some e \<Rightarrow>
            emit [SpiderClose (pname p), LogException (''Close pipelines with '' @ exn_class e)] s)"

text \<open>The loop over \<open>self.sessions.values()\<close>: no \<open>try\<close> around \<open>session.close()\<close>.\<close>

fun close_sessions :: "session list \<Rightarrow> ant \<Rightarrow> (exn + unit) \<times> ant" where
  "close_sessions [] s = (Inr (), s)"
| "close_sessions (x # xs) s =
     (let s1 = emit [SessionClose (sid x)] s
      in case session_close s (sid x) of
           Some e \<Rightarrow> (Inl e, s1)
         | None \<Rightarrow> close_sessions xs s1)"

definition close :: "ant \<Rightarrow> (exn + unit) \<times> ant" where
  "close s =
     (let s1 = close_pipelines (item_pipelines s @ response_pipelines s @ request_pipelines s) s
      in case close_sessions (map snd (sessions s1)) s1 of
           (Inl e, s2) \<Rightarrow> (Inl e, s2)
         | (Inr _, s2) \<Rightarrow> (Inr (), emit [LogInfo Closed] s2))"

text \<open>
  Modelled from the spec: \<open>queen.wait_scheduled_coroutines\<close>, of the module \<open>queen\<close>,
  the barrier that blocks until every previously scheduled task has finished. The
  scheduled work itself belongs to the user's crawl logic.
\<close>

definition wait_scheduled_coroutines :: "ant \<Rightarrow> ant" where
  "wait_scheduled_coroutines s = emit [WaitScheduled] s"

text \<open>The three closing statements of \<open>main\<close>.\<close>

definition total_report :: "ant \<Rightarrow> ant" where
  "total_report s =
     (let s1 = emit (map (\<lambda>(name, c0, c1). LogInfo (GetTotal c1 name)) (reports s)) s;
          s2 = emit (map (\<lambda>(name, c0, c1). LogInfo (DropTotal c1 name)) (drop_reports s1)) s1;
          (now, s3) = time_time s2
      in emit [LogInfo (RunTime (class_name s3) (now - start_time s3))] s3)"

text \<open>\<open>main\<close>, with the abstract method \<open>run\<close> as a parameter.\<close>

definition main :: "(ant \<Rightarrow> (exn + unit) \<times> ant) \<Rightarrow> ant \<Rightarrow> (exn + unit) \<times> ant" where
  "main run s =
     (let s1 = open_ant s;
          (r, s2) = run s1;
          s3 = (case r of
                  Inl e \<Rightarrow> emit [LogException (''Run ant run`s coroutine with '' @ exn_class e)] s2
                | Inr _ \<Rightarrow> s2);
          s4 = wait_scheduled_coroutines s3
      in case close s4 of
           (Inl e, s5) \<Rightarrow> (Inl e, s5)
         | (Inr _, s5) \<Rightarrow> (Inr (), total_report (wait_scheduled_coroutines s5)))"

section \<open>The session pool and the network call\<close>

text \<open>
  \<open>cookie_jar.update_cookies(cookies)\<close> of aiohttp, for cookies given as a plain
  \<open>dict\<close>: each name is stored in the jar, in turn.
\<close>

definition update_cookies :: "pydict \<Rightarrow> pydict \<Rightarrow> pydict" where
  "update_cookies jar cookies = foldl (\<lambda>j (name, v). AList.update name v j) jar cookies"

text \<open>\<open>aiohttp.ClientSession(cookies=cookies)\<close>: a new object with its own jar.\<close>

definition ClientSession :: "nat \<Rightarrow> pydict option \<Rightarrow> session" where
  "ClientSession n cookies =
     \<lparr>sid = n, cookie_jar = (case cookies of None \<Rightarrow> [] | Some cs \<Rightarrow> update_cookies [] cs)\<rparr>"

text \<open>Lines 152 to 159 of \<open>_request\<close>: the session of the request's host.\<close>

definition acquire :: "request \<Rightarrow> ant \<Rightarrow> session \<times> ant" where
  "acquire req s =
     (let host = url_host req; cookies = req_cookies req
      in case map_of (sessions s) host of
           None \<Rightarrow>
             (let session = ClientSession (created s) cookies
              in (session,
                  emit [NewSession (sid session) host]
                    (s\<lparr>sessions := sessions s @ [(host, session)], created := Suc (created s)\<rparr>)))
         | Some session \<Rightarrow>
             (case cookies of
                None \<Rightarrow> (session, s)
              | Some cs \<Rightarrow>
                  (let session' = session\<lparr>cookie_jar := update_cookies (cookie_jar session) cs\<rparr>
                   in (session', s\<lparr>sessions := AList.update host session' (sessions s)\<rparr>))))"

text \<open>
  Lines 139 to 150 of \<open>_request\<close>: the keyword arguments, that is, the slots of the
  request but its cookies, the proxy and redirect settings, and the proxy's auth header
  among the headers when the proxy URL names a user.
\<close>

definition make_kwargs :: "request \<Rightarrow> ant \<Rightarrow> kwargs" where
  "make_kwargs req s =
     \<lparr>kw_url = url req, kw_method = req_method req, kw_params = params req,
      kw_headers =
        (case request_proxy s of
           None \<Rightarrow> req_headers req
         | Some p \<Rightarrow>
             (case proxy_auth p of
                None \<Rightarrow> req_headers req
              | Some auth \<Rightarrow>
                  Some (AList.update ''Proxy-Authorization'' auth
                          (case req_headers req of None \<Rightarrow> [] | Some h \<Rightarrow> h)))),
      kw_data = req_data req,
      kw_proxy = map_option proxy_url (request_proxy s),
      kw_max_redirects = request_max_redirects s,
      kw_allow_redirects = request_allow_redirects s\<rparr>"

definition convert_response :: "aio_response \<Rightarrow> request \<Rightarrow> response" where
  "convert_response a req =
     \<lparr>res_request = req, status = aio_status a, content = aio_content a,
      res_headers = aio_headers a, res_cookies = aio_cookies a, encoding = aio_encoding a\<rparr>"

text \<open>
  The \<open>Request\<close> object once the keyword arguments are made: its \<open>headers\<close> dict, when
  it has one, is the very dict the auth header is written into.
\<close>

definition written_request :: "request \<Rightarrow> kwargs \<Rightarrow> request" where
  "written_request req kw =
     (case req_headers req of None \<Rightarrow> req | Some h \<Rightarrow> req\<lparr>req_headers := kw_headers kw\<rparr>)"

text \<open>
  \<open>_request\<close>, awaited under the bound \<open>t\<close>. A value that is not a \<open>Request\<close> has none of
  the attributes read in the first lines, and the call raises.
\<close>

definition raw_request :: "timeout \<Rightarrow> val \<Rightarrow> ant \<Rightarrow> (exn + response) \<times> ant" where
  "raw_request t v s =
     (case v of
        RequestV req \<Rightarrow>
          (let kw = make_kwargs req s;
               (session, s1) = acquire req s;
               outcome = net s1 (sent s1) t kw;
               s2 = emit [SessionRequest (sid session) kw] (s1\<lparr>sent := Suc (sent s1)\<rparr>)
           in case outcome of
                Inl e \<Rightarrow> (Inl e, s2)
              | Inr a \<Rightarrow> (Inr (convert_response a (written_request req kw)), s2))
      | _ \<Rightarrow> (Inl (Exn ''AttributeError'' (type_name v) None), s))"

text \<open>
  Modelled from the spec: \<open>queen.timeout_wrapper\<close>, of the module \<open>queen\<close>, which runs
  each attempt under the configured duration; the attempt fails with a timeout error when
  it does not complete in time. An awaited operation is a function of its bound.
\<close>

definition timeout_wrapper :: "(timeout \<Rightarrow> 'a) \<Rightarrow> timeout \<Rightarrow> 'a" where
  "timeout_wrapper f t = f t"

section \<open>Retrying\<close>

text \<open>\<open>retry_if_result(lambda res: res.status >= 500) | retry_if_exception_type()\<close>\<close>

fun should_retry :: "exn + response \<Rightarrow> bool" where
  "should_retry (Inl e) = True"
| "should_retry (Inr res) = (status res \<ge> 500)"

text \<open>
  The loop of tenacity's \<open>retry\<close> with \<open>wait_fixed(delay)\<close> and
  \<open>stop_after_attempt(stop)\<close>: an attempt; when its outcome is not to be retried, the
  outcome itself; when the attempts are used up, \<open>RetryError\<close> raised from the last
  exception; otherwise the fixed sleep and the next attempt.
\<close>

function retry_call ::
    "real \<Rightarrow> int \<Rightarrow> (val \<Rightarrow> ant \<Rightarrow> (exn + response) \<times> ant) \<Rightarrow> int \<Rightarrow> val \<Rightarrow> ant
       \<Rightarrow> (exn + response) \<times> ant" where
  "retry_call delay stop fn attempt_number req s =
     (case fn req s of
        (outcome, s1) \<Rightarrow>
          if should_retry outcome then
            (if attempt_number \<ge> stop
             then (Inl (Exn ''RetryError'' []
                        (case outcome of Inl e \<Rightarrow> Some e | Inr _ \<Rightarrow> None)), s1)
             else retry_call delay stop fn (attempt_number + 1) req (emit [Sleep delay] s1))
          else (outcome, s1))"
  by pat_completeness auto
termination
  by (relation "measure (\<lambda>(delay, stop, fn, attempt_number, req, s). nat (stop - attempt_number))")
    auto

definition make_retry_decorator ::
    "int \<Rightarrow> real \<Rightarrow> (val \<Rightarrow> ant \<Rightarrow> (exn + response) \<times> ant) \<Rightarrow> val \<Rightarrow> ant
       \<Rightarrow> (exn + response) \<times> ant" where
  "make_retry_decorator retries delay fn = retry_call delay (retries + 1) fn 1"

text \<open>Lines 56 to 61 of \<open>request\<close>: the send, retried when \<open>request_retries\<close> is positive.\<close>

definition send :: "val \<Rightarrow> ant \<Rightarrow> (exn + response) \<times> ant" where
  "send req s =
     (let request_function = timeout_wrapper raw_request (request_timeout s);
          retries = request_retries s
      in if retries > 0
         then make_retry_decorator retries (request_retry_delay s) request_function req s
         else request_function req s)"

text \<open>\<open>request\<close>, from the \<open>Request\<close> it builds.\<close>

definition request :: "request \<Rightarrow> ant \<Rightarrow> (exn + val) \<times> ant" where
  "request r s =
     (case handle_thing_with_pipelines (RequestV r) (request_pipelines s) (request_timeout s) s of
        (Inl e, s1) \<Rightarrow> (Inl e, s1)
      | (Inr req, s1) \<Rightarrow>
          (case send req (report req False s1) of
             (Inl e, s2) \<Rightarrow> (Inl e, s2)
           | (Inr res, s2) \<Rightarrow>
               (case handle_thing_with_pipelines (ResponseV res) (response_pipelines s2)
                       (request_timeout s2) s2 of
                  (Inl e, s3) \<Rightarrow> (Inl e, s3)
                | (Inr res', s3) \<Rightarrow> (Inr res', report res' False s3))))"

section \<open>Notions used in the statements\<close>

text \<open>\<open>isinstance(thing, Exception)\<close>\<close>

fun is_exception :: "val \<Rightarrow> bool" where
  "is_exception (ExcV e) = True"
| "is_exception _ = False"

text \<open>
  The awaited process result of one stage on an input under a bound, and what the runner
  does to obtain it.
\<close>

definition stage_result :: "pipeline \<Rightarrow> val \<Rightarrow> timeout \<Rightarrow> exn + val" where
  "stage_result p v t = (case process p v of Plain w \<Rightarrow> Inr w | Coro c \<Rightarrow> c t | Raises e \<Rightarrow> Inl e)"

definition stage_events :: "pipeline \<Rightarrow> val \<Rightarrow> timeout \<Rightarrow> event list" where
  "stage_events p v t =
     (case process p v of
        Coro c \<Rightarrow> [Process (pname p) v, Await (pname p) t]
      | _ \<Rightarrow> [Process (pname p) v])"

text \<open>The stages invoked, with their inputs, and the bounds of the awaits, as a trace shows them.\<close>

fun process_calls :: "event list \<Rightarrow> (string \<times> val) list" where
  "process_calls [] = []"
| "process_calls (Process n v # evs) = (n, v) # process_calls evs"
| "process_calls (_ # evs) = process_calls evs"

text \<open>The running total of a class name (\<open>counts[1]\<close>; zero while the name is not tracked).\<close>

definition total_of :: "string \<Rightarrow> counters \<Rightarrow> int" where
  "total_of k cs = (case map_of cs k of None \<Rightarrow> 0 | Some (c0, c1) \<Rightarrow> c1)"

text \<open>The events of a chain of stages run on the given inputs.\<close>

definition chain_events :: "timeout \<Rightarrow> pipeline list \<Rightarrow> val list \<Rightarrow> event list" where
  "chain_events t ps inputs = concat (map (\<lambda>(p, v). stage_events p v t) (zip ps inputs))"

fun await_bounds :: "event list \<Rightarrow> timeout list" where
  "await_bounds [] = []"
| "await_bounds (Await n t # evs) = t # await_bounds evs"
| "await_bounds (_ # evs) = await_bounds evs"


text \<open>The hooks invoked and the sessions whose \<open>close\<close> was invoked, as a trace shows them.\<close>

fun opened :: "event list \<Rightarrow> string list" where
  "opened [] = []"
| "opened (SpiderOpen n # evs) = n # opened evs"
| "opened (_ # evs) = opened evs"

fun session_closes :: "event list \<Rightarrow> nat list" where
  "session_closes [] = []"
| "session_closes (SessionClose n # evs) = n # session_closes evs"
| "session_closes (_ # evs) = session_closes evs"

text \<open>What one round of each hook loop adds to the trace.\<close>

definition open_events :: "pipeline \<Rightarrow> event list" where
  "open_events p =
     (case hook_failure (on_spider_open p) of
        None \<Rightarrow> [SpiderOpen (pname p)]
      | Some e \<Rightarrow> [SpiderOpen (pname p), LogException (''Open pipelines with '' @ exn_class e)])"

definition close_events :: "pipeline \<Rightarrow> event list" where
  "close_events p =
     (case hook_failure (on_spider_close p) of
        None \<Rightarrow> [SpiderClose (pname p)]
      | Some e \<Rightarrow> [SpiderClose (pname p), LogException (''Close pipelines with '' @ exn_class e)])"

text \<open>
  The pool as the orchestrator builds it: one entry per host (it is a \<open>dict\<close>), every
  session object in one entry only, each of them created by this orchestrator.
\<close>

definition pool_ok :: "ant \<Rightarrow> bool" where
  "pool_ok s \<longleftrightarrow>
     distinct (map fst (sessions s)) \<and> distinct (map (\<lambda>x. sid (snd x)) (sessions s))
     \<and> (\<forall>x\<in>set (sessions s). sid (snd x) < created s)"

text \<open>The calls of \<open>session.request\<close> and the sleeps between attempts, as a trace shows them.\<close>

fun transport_calls :: "event list \<Rightarrow> (nat \<times> kwargs) list" where
  "transport_calls [] = []"
| "transport_calls (SessionRequest n kw # evs) = (n, kw) # transport_calls evs"
| "transport_calls (_ # evs) = transport_calls evs"

fun sleeps :: "event list \<Rightarrow> real list" where
  "sleeps [] = []"
| "sleeps (Sleep d # evs) = d # sleeps evs"
| "sleeps (_ # evs) = sleeps evs"

text \<open>
  The outcome of the \<open>j\<close>-th network exchange counted from a state, for a request sent
  with the orchestrator's settings; and the attempts the claim calls retried: those that
  raised, and those that returned a response with a status of 500 or more.
\<close>

definition attempt_outcome :: "ant \<Rightarrow> request \<Rightarrow> nat \<Rightarrow> exn + aio_response" where
  "attempt_outcome s req j = net s (sent s + j) (request_timeout s) (make_kwargs req s)"

fun raised_or_5xx :: "exn + aio_response \<Rightarrow> bool" where
  "raised_or_5xx (Inl e) = True"
| "raised_or_5xx (Inr a) = (aio_status a \<ge> 500)"

text \<open>The settings and the network a request is sent with are the same in two states.\<close>

definition same_env :: "ant \<Rightarrow> ant \<Rightarrow> bool" where
  "same_env s s' \<longleftrightarrow>
     net s' = net s \<and> request_timeout s' = request_timeout s \<and> request_proxy s' = request_proxy s
     \<and> request_max_redirects s' = request_max_redirects s
     \<and> request_allow_redirects s' = request_allow_redirects s"

section \<open>Concrete pipelines, requests and orchestrators\<close>

definition ex_pipeline :: "string \<Rightarrow> (val \<Rightarrow> proc_result) \<Rightarrow> pipeline" where
  "ex_pipeline n f = \<lparr>pname = n, process = f, on_spider_open = HookReturns, on_spider_close = HookReturns\<rparr>"

definition ex_blocked :: exn where
  "ex_blocked = Exn ''ValueError'' ''blocked'' None"

definition ex_ok :: aio_response where
  "ex_ok = \<lparr>aio_status = 200, aio_content = [], aio_headers = [], aio_cookies = [], aio_encoding = ''utf-8''\<rparr>"

definition ex_request :: request where
  "ex_request = \<lparr>url_host = Some ''example.com'', url = ''http://example.com/'', req_method = ''GET'',
     params = None, req_headers = None, req_cookies = None, req_data = None\<rparr>"

definition ex_ant :: ant where
  "ex_ant = \<lparr>class_name = ''Spider'', response_pipelines = [], request_pipelines = [],
     item_pipelines = [], request_timeout = DEFAULT_TIMEOUT, request_retries = 3,
     request_retry_delay = 5, request_proxy = None, request_max_redirects = 10,
     request_allow_redirects = True, sessions = [], reports = [], drop_reports = [],
     start_time = 0, last_time = 0, report_slot = 60, clock = (\<lambda>n. 0), ticks = 0,
     net = (\<lambda>n t kw. Inr ex_ok), sent = 0, session_close = (\<lambda>n. None), created = 0, trace = []\<rparr>"

definition ex_blocker :: pipeline where
  "ex_blocker = ex_pipeline ''B'' (\<lambda>v. Plain (ExcV ex_blocked))"

definition ex_chain :: "pipeline list" where
  "ex_chain = [ex_pipeline ''A'' Plain, ex_blocker,
               ex_pipeline ''C'' (\<lambda>v. Raises (Exn ''Unreachable'' [] None))]"

definition ex_none_chain :: "pipeline list" where
  "ex_none_chain = [ex_pipeline ''A'' Plain, ex_pipeline ''N'' (\<lambda>v. Plain NoneV),
                    ex_pipeline ''T'' (\<lambda>v. Coro (\<lambda>t. Inr (ObjV (type_name v))))]"

definition ex_timed :: pipeline where
  "ex_timed = ex_pipeline ''T''
     (\<lambda>v. Coro (\<lambda>t. if t = DEFAULT_TIMEOUT then Inr v else Inl (Exn ''TimeoutError'' [] None)))"


definition ex_failing_hooks :: pipeline where
  "ex_failing_hooks = \<lparr>pname = ''F'', process = Plain,
     on_spider_open = HookRaises (Exn ''IOError'' ''disk'' None),
     on_spider_close = HookCoro (Some (Exn ''IOError'' ''disk'' None))\<rparr>"

definition ex_two :: ant where
  "ex_two = ex_ant\<lparr>request_pipelines := [ex_pipeline ''A'' Plain], item_pipelines := [ex_blocker]\<rparr>"

definition ex_hooked :: ant where
  "ex_hooked = ex_ant\<lparr>response_pipelines := [ex_pipeline ''A'' Plain],
     request_pipelines := [ex_blocker], item_pipelines := [ex_failing_hooks]\<rparr>"

definition ex_pool :: ant where
  "ex_pool = ex_ant\<lparr>sessions := [(Some ''a.example'', \<lparr>sid = 0, cookie_jar = []\<rparr>),
                                    (Some ''b.example'', \<lparr>sid = 1, cookie_jar = []\<rparr>)],
     session_close := (\<lambda>n. if n = 0 then Some (Exn ''OSError'' ''reset'' None) else None),
     created := 2\<rparr>"

definition ex_run :: "ant \<Rightarrow> (exn + unit) \<times> ant" where
  "ex_run s = (Inl (Exn ''KeyError'' ''boom'' None), report (ItemV []) False s)"

definition ex_crawler :: ant where
  "ex_crawler = ex_hooked\<lparr>sessions := [(Some ''a.example'', \<lparr>sid = 0, cookie_jar = []\<rparr>)],
     created := 1\<rparr>"

definition ex_cookie_request :: request where
  "ex_cookie_request = ex_request\<lparr>url_host := Some ''a.example'',
     req_cookies := Some [(''token'', ''new''), (''lang'', ''en'')]\<rparr>"

definition ex_cookie_pool :: ant where
  "ex_cookie_pool = ex_ant\<lparr>sessions :=
       [(Some ''a.example'', \<lparr>sid = 0, cookie_jar = [(''token'', ''old''), (''seen'', ''1'')]\<rparr>),
        (Some ''b.example'', \<lparr>sid = 1, cookie_jar = []\<rparr>)],
     created := 2\<rparr>"

definition ex_flaky :: ant where
  "ex_flaky = ex_ant\<lparr>net := (\<lambda>n t kw. if n < 2 then Inr (ex_ok\<lparr>aio_status := 503\<rparr>) else Inr ex_ok)\<rparr>"

definition ex_single :: ant where
  "ex_single = ex_ant\<lparr>response_pipelines := ex_chain, request_retries := 0\<rparr>"

definition ex_response :: response where
  "ex_response = convert_response ex_ok ex_request"

definition ex_bad_crawler :: ant where
  "ex_bad_crawler = ex_crawler\<lparr>session_close := (\<lambda>n. Some (Exn ''OSError'' ''reset'' None))\<rparr>"

definition ex_hooked_pool :: ant where
  "ex_hooked_pool = ex_pool\<lparr>request_pipelines := [ex_blocker], item_pipelines := [ex_failing_hooks]\<rparr>"

section \<open>Properties\<close>

subsection \<open>The pipeline runner\<close>

lemma emit_emit: "emit b (emit a s) = emit (a @ b) s"
  by (simp add: emit_def)

lemma emit_Nil: "emit [] s = s"
  by (simp add: emit_def)

lemma step_pass:
  "stage_result p v t = Inr w \<Longrightarrow> \<not> is_exception w \<Longrightarrow>
   handle_loop raw t (p # ps) v s = handle_loop raw t ps w (emit (stage_events p v t) s)"
  by (cases w) (auto simp: stage_result_def stage_events_def emit_emit Let_def split: proc_result.splits sum.splits)

lemma step_drop:
  "stage_result p v t = Inr (ExcV e) \<Longrightarrow>
   handle_loop raw t (p # ps) v s = (Inl e, report raw True (emit (stage_events p v t) s))"
  by (auto simp: stage_result_def stage_events_def emit_emit Let_def split: proc_result.splits sum.splits)

lemma step_raise:
  "stage_result p v t = Inl e \<Longrightarrow>
   handle_loop raw t (p # ps) v s = (Inl e, emit (stage_events p v t) s)"
  by (auto simp: stage_result_def stage_events_def emit_emit Let_def split: proc_result.splits sum.splits)

lemma chain_pass:
  "length vs = length ps \<Longrightarrow>
   \<forall>i<length ps. stage_result (ps ! i) ((thing # vs) ! i) t = Inr (vs ! i) \<and> \<not> is_exception (vs ! i) \<Longrightarrow>
   handle_loop raw t (ps @ post) thing s =
     handle_loop raw t post (last (thing # vs)) (emit (chain_events t ps (thing # vs)) s)"
proof (induction ps arbitrary: vs thing s)
  case Nil
  then show ?case by (simp add: chain_events_def emit_Nil)
next
  case (Cons p ps)
  then obtain w ws where vs: "vs = w # ws" by (cases vs) auto
  from Cons.prems(2) have h0: "stage_result p thing t = Inr w" "\<not> is_exception w"
    using vs by auto
  have hs: "\<forall>i<length ps. stage_result (ps ! i) ((w # ws) ! i) t = Inr (ws ! i) \<and> \<not> is_exception (ws ! i)"
  proof (intro allI impI)
    fix i assume "i < length ps"
    then have "Suc i < length (p # ps)" by simp
    from Cons.prems(2)[rule_format, OF this] show "stage_result (ps ! i) ((w # ws) ! i) t = Inr (ws ! i) \<and> \<not> is_exception (ws ! i)"
      using vs by simp
  qed
  have len: "length ws = length ps" using Cons.prems(1) vs by simp
  have "handle_loop raw t ((p # ps) @ post) thing s
        = handle_loop raw t (ps @ post) w (emit (stage_events p thing t) s)"
    using step_pass[OF h0] by simp
  also have "\<dots> = handle_loop raw t post (last (w # ws))
        (emit (chain_events t ps (w # ws)) (emit (stage_events p thing t) s))"
    by (rule Cons.IH[OF len hs])
  also have "last (w # ws) = last (thing # vs)" using vs by simp
  also have "emit (chain_events t ps (w # ws)) (emit (stage_events p thing t) s)
        = emit (chain_events t (p # ps) (thing # vs)) s"
    using vs by (simp add: emit_emit chain_events_def)
  finally show ?case .
qed

lemma process_calls_append: "process_calls (a @ b) = process_calls a @ process_calls b"
  by (induction a rule: process_calls.induct) auto

lemma await_bounds_append: "await_bounds (a @ b) = await_bounds a @ await_bounds b"
  by (induction a rule: await_bounds.induct) auto

lemma process_calls_flush: "process_calls (flush_lines f slot cs) = []"
  by (induction cs) (auto simp: flush_lines_def)

lemma await_bounds_flush: "await_bounds (flush_lines f slot cs) = []"
  by (induction cs) (auto simp: flush_lines_def)

lemma process_calls_stage: "process_calls (stage_events p v t) = [(pname p, v)]"
  by (simp add: stage_events_def split: proc_result.splits)

lemma await_bounds_stage: "set (await_bounds (stage_events p v t)) \<subseteq> {t}"
  by (simp add: stage_events_def split: proc_result.splits)

lemma process_calls_chain:
  "process_calls (chain_events t ps inputs) = zip (map pname ps) inputs"
  by (induction ps arbitrary: inputs)
     (auto simp: chain_events_def process_calls_append process_calls_stage split: list.splits
           simp: zip_Cons1)

lemma total_of_rebaseline: "total_of k (rebaseline cs) = total_of k cs"
  by (induction cs) (auto simp: total_of_def rebaseline_def)

lemma total_of_bump: "total_of k (bump k' cs) = total_of k cs + (if k = k' then 1 else 0)"
  by (induction cs) (auto simp: total_of_def)

lemma report_trace:
  "\<exists>evs. trace (report thing d s) = trace s @ evs \<and> process_calls evs = [] \<and> await_bounds evs = []"
  by (auto simp: report_def time_time_def emit_def Let_def process_calls_append process_calls_flush
        await_bounds_append await_bounds_flush)

lemma report_dropped_totals:
  "total_of k (drop_reports (report thing True s)) =
     total_of k (drop_reports s) + (if k = type_name thing then 1 else 0)"
  "total_of k (reports (report thing True s)) = total_of k (reports s)"
  by (auto simp: report_def time_time_def emit_def Let_def total_of_bump total_of_rebaseline)

lemma report_delivered_totals:
  "total_of k (reports (report thing False s)) =
     total_of k (reports s) + (if k = type_name thing then 1 else 0)"
  "total_of k (drop_reports (report thing False s)) = total_of k (drop_reports s)"
  by (auto simp: report_def time_time_def emit_def Let_def total_of_bump total_of_rebaseline)

lemma emit_fields [simp]:
  "trace (emit evs s) = trace s @ evs"
  "reports (emit evs s) = reports s"
  "drop_reports (emit evs s) = drop_reports s"
  by (simp_all add: emit_def)

lemma zip_snoc_nth:
  "k < length ps \<Longrightarrow> length ws = Suc k \<Longrightarrow>
   zip (take (Suc k) ps) ws = zip (take k ps) ws @ [(ps ! k, ws ! k)]"
proof (induction k arbitrary: ps ws)
  case 0
  then show ?case by (cases ps; cases ws) auto
next
  case (Suc k)
  then show ?case by (cases ps; cases ws) auto
qed

lemma chain_drop:
  assumes k: "k < length ps" and len: "length vs = k"
    and pass: "\<forall>i<k. stage_result (ps ! i) ((thing # vs) ! i) t = Inr (vs ! i) \<and> \<not> is_exception (vs ! i)"
    and err: "stage_result (ps ! k) ((thing # vs) ! k) t = Inr (ExcV e)"
  shows "handle_loop raw t ps thing s =
           (Inl e, report raw True (emit (chain_events t (take (Suc k) ps) (thing # vs)) s))"
proof -
  have split: "ps = take k ps @ (ps ! k # drop (Suc k) ps)"
    using k by (simp add: id_take_nth_drop[symmetric])
  have len': "length vs = length (take k ps)" using k len by simp
  have pass': "\<forall>i<length (take k ps).
      stage_result (take k ps ! i) ((thing # vs) ! i) t = Inr (vs ! i) \<and> \<not> is_exception (vs ! i)"
    using pass k by simp
  have lastk: "last (thing # vs) = (thing # vs) ! k"
    using len last_conv_nth[of "thing # vs"] by simp
  have "handle_loop raw t ps thing s = handle_loop raw t (take k ps @ (ps ! k # drop (Suc k) ps)) thing s"
    using split by simp
  also have "\<dots> = handle_loop raw t (ps ! k # drop (Suc k) ps) ((thing # vs) ! k)
                     (emit (chain_events t (take k ps) (thing # vs)) s)"
    using chain_pass[OF len' pass'] lastk by simp
  also have "\<dots> = (Inl e, report raw True (emit (stage_events (ps ! k) ((thing # vs) ! k) t)
                     (emit (chain_events t (take k ps) (thing # vs)) s)))"
    by (rule step_drop[OF err])
  also have "emit (stage_events (ps ! k) ((thing # vs) ! k) t)
                     (emit (chain_events t (take k ps) (thing # vs)) s)
          = emit (chain_events t (take (Suc k) ps) (thing # vs)) s"
  proof -
    have "zip (take (Suc k) ps) (thing # vs) = zip (take k ps) (thing # vs) @ [(ps ! k, (thing # vs) ! k)]"
      using k len by (intro zip_snoc_nth) simp_all
    then show ?thesis by (simp add: emit_emit chain_events_def)
  qed
  finally show ?thesis .
qed

lemma chain_raise:
  assumes k: "k < length ps" and len: "length vs = k"
    and pass: "\<forall>i<k. stage_result (ps ! i) ((thing # vs) ! i) t = Inr (vs ! i) \<and> \<not> is_exception (vs ! i)"
    and err: "stage_result (ps ! k) ((thing # vs) ! k) t = Inl e"
  shows "handle_loop raw t ps thing s =
           (Inl e, emit (chain_events t (take (Suc k) ps) (thing # vs)) s)"
proof -
  have split: "ps = take k ps @ (ps ! k # drop (Suc k) ps)"
    using k by (simp add: id_take_nth_drop[symmetric])
  have len': "length vs = length (take k ps)" using k len by simp
  have pass': "\<forall>i<length (take k ps).
      stage_result (take k ps ! i) ((thing # vs) ! i) t = Inr (vs ! i) \<and> \<not> is_exception (vs ! i)"
    using pass k by simp
  have lastk: "last (thing # vs) = (thing # vs) ! k"
    using len last_conv_nth[of "thing # vs"] by simp
  have "handle_loop raw t ps thing s = handle_loop raw t (take k ps @ (ps ! k # drop (Suc k) ps)) thing s"
    using split by simp
  also have "\<dots> = handle_loop raw t (ps ! k # drop (Suc k) ps) ((thing # vs) ! k)
                     (emit (chain_events t (take k ps) (thing # vs)) s)"
    using chain_pass[OF len' pass'] lastk by simp
  also have "\<dots> = (Inl e, emit (stage_events (ps ! k) ((thing # vs) ! k) t)
                     (emit (chain_events t (take k ps) (thing # vs)) s))"
    by (rule step_raise[OF err])
  also have "emit (stage_events (ps ! k) ((thing # vs) ! k) t)
                     (emit (chain_events t (take k ps) (thing # vs)) s)
          = emit (chain_events t (take (Suc k) ps) (thing # vs)) s"
  proof -
    have "zip (take (Suc k) ps) (thing # vs) = zip (take k ps) (thing # vs) @ [(ps ! k, (thing # vs) ! k)]"
      using k len by (intro zip_snoc_nth) simp_all
    then show ?thesis by (simp add: emit_emit chain_events_def)
  qed
  finally show ?thesis .
qed

lemma handle_collect:
  "handle_thing_with_pipelines thing (item_pipelines s) DEFAULT_TIMEOUT s = (Inl e, s') \<Longrightarrow>
   collect thing s = (Inl e, s')"
  by (simp add: collect_def)

lemma handle_request_stage:
  "handle_thing_with_pipelines (RequestV rq) (request_pipelines s) (request_timeout s) s = (Inl e, s') \<Longrightarrow>
   request rq s = (Inl e, s')"
  by (simp add: request_def)

lemma handle_response_stage:
  "handle_thing_with_pipelines (RequestV rq) (request_pipelines s0) (request_timeout s0) s0 = (Inr req, sa) \<Longrightarrow>
   send req (report req False sa) = (Inr res, s) \<Longrightarrow>
   handle_thing_with_pipelines (ResponseV res) (response_pipelines s) (request_timeout s) s = (Inl e, s') \<Longrightarrow>
   request rq s0 = (Inl e, s')"
  by (simp add: request_def)

text \<open>
  Claim C1. Let stage \<open>k\<close> (counted from zero here) be the first stage of a chain whose
  awaited process result is an exception instance, the stages before it having returned
  the non-exception values \<open>vs\<close>. Then the runner fails with that exception; the stages
  invoked are exactly the first \<open>k + 1\<close>, each on the output of the one before, so no
  later stage is invoked; the dropped total of the class name of the original Thing
  grows by exactly one and no other total changes; and \<open>collect\<close> and \<open>request\<close>
  (in its request chain and in its response chain) fail with the same exception.
\<close>

theorem pipeline_error_drops_thing:
  assumes k: "k < length ps" and len: "length vs = k"
    and pass: "\<forall>i<k. stage_result (ps ! i) ((thing # vs) ! i) t = Inr (vs ! i) \<and> \<not> is_exception (vs ! i)"
    and err: "stage_result (ps ! k) ((thing # vs) ! k) t = Inr (ExcV e)"
    and run: "handle_thing_with_pipelines thing ps t s = (r, s')"
  shows "r = Inl e
    \<and> process_calls (trace s') = process_calls (trace s) @ zip (map pname (take (Suc k) ps)) (thing # vs)
    \<and> (\<forall>name. total_of name (drop_reports s') =
           total_of name (drop_reports s) + (if name = type_name thing then 1 else 0))
    \<and> (\<forall>name. total_of name (reports s') = total_of name (reports s))
    \<and> (ps = item_pipelines s \<and> t = DEFAULT_TIMEOUT \<longrightarrow> collect thing s = (Inl e, s'))
    \<and> (\<forall>rq. thing = RequestV rq \<and> ps = request_pipelines s \<and> t = request_timeout s
           \<longrightarrow> request rq s = (Inl e, s'))
    \<and> (\<forall>rq s0 req sa res.
           handle_thing_with_pipelines (RequestV rq) (request_pipelines s0) (request_timeout s0) s0
             = (Inr req, sa)
           \<and> send req (report req False sa) = (Inr res, s)
           \<and> thing = ResponseV res \<and> ps = response_pipelines s \<and> t = request_timeout s
           \<longrightarrow> request rq s0 = (Inl e, s'))"
proof -
  let ?mid = "emit (chain_events t (take (Suc k) ps) (thing # vs)) s"
  have eq: "handle_thing_with_pipelines thing ps t s = (Inl e, report thing True ?mid)"
    unfolding handle_thing_with_pipelines_def by (rule chain_drop[OF k len pass err])
  with run have r: "r = Inl e" and s': "s' = report thing True ?mid" by simp_all
  obtain evs where evs: "trace s' = trace ?mid @ evs" "process_calls evs = []"
    using report_trace[of thing True ?mid] s' by auto
  have calls: "process_calls (trace s') =
      process_calls (trace s) @ zip (map pname (take (Suc k) ps)) (thing # vs)"
    using evs by (simp add: process_calls_append process_calls_chain)
  have drops: "\<forall>name. total_of name (drop_reports s') =
           total_of name (drop_reports s) + (if name = type_name thing then 1 else 0)"
    unfolding s' by (simp add: report_dropped_totals)
  have dels: "\<forall>name. total_of name (reports s') = total_of name (reports s)"
    unfolding s' by (simp add: report_dropped_totals)
  have c: "ps = item_pipelines s \<and> t = DEFAULT_TIMEOUT \<longrightarrow> collect thing s = (Inl e, s')"
    using run r handle_collect by blast
  have q: "\<forall>rq. thing = RequestV rq \<and> ps = request_pipelines s \<and> t = request_timeout s
           \<longrightarrow> request rq s = (Inl e, s')"
    using run r handle_request_stage by blast
  have p: "\<forall>rq s0 req sa res.
           handle_thing_with_pipelines (RequestV rq) (request_pipelines s0) (request_timeout s0) s0
             = (Inr req, sa)
           \<and> send req (report req False sa) = (Inr res, s)
           \<and> thing = ResponseV res \<and> ps = response_pipelines s \<and> t = request_timeout s
           \<longrightarrow> request rq s0 = (Inl e, s')"
    using run r handle_response_stage by blast
  from r calls drops dels c q p show ?thesis by blast
qed

theorem pipeline_error_drops_thing_witness:
  "stage_result (ex_chain ! 0) (ItemV []) DEFAULT_TIMEOUT = Inr (ItemV [])
   \<and> stage_result (ex_chain ! 1) (ItemV []) DEFAULT_TIMEOUT = Inr (ExcV ex_blocked)
   \<and> fst (collect (ItemV []) (ex_ant\<lparr>item_pipelines := ex_chain\<rparr>)) = Inl ex_blocked
   \<and> process_calls (trace (snd (collect (ItemV []) (ex_ant\<lparr>item_pipelines := ex_chain\<rparr>))))
       = [(''A'', ItemV []), (''B'', ItemV [])]
   \<and> total_of ''Item'' (drop_reports (snd (collect (ItemV []) (ex_ant\<lparr>item_pipelines := ex_chain\<rparr>)))) = 1
   \<and> total_of ''Item'' (reports (snd (collect (ItemV []) (ex_ant\<lparr>item_pipelines := ex_chain\<rparr>)))) = 0
   \<and> fst (request ex_request (ex_ant\<lparr>request_pipelines := ex_chain\<rparr>)) = Inl ex_blocked
   \<and> total_of ''Request''
        (drop_reports (snd (request ex_request (ex_ant\<lparr>request_pipelines := ex_chain\<rparr>)))) = 1
   \<and> fst (request ex_request ex_single) = Inl ex_blocked
   \<and> process_calls (trace (snd (request ex_request ex_single)))
       = [(''A'', ResponseV ex_response), (''B'', ResponseV ex_response)]
   \<and> total_of ''Response'' (drop_reports (snd (request ex_request ex_single))) = 1
   \<and> total_of ''Request'' (reports (snd (request ex_request ex_single))) = 1"
proof -
  let ?s = "ex_ant\<lparr>item_pipelines := ex_chain\<rparr>"
  have h1: "(1::nat) < length ex_chain" by (simp add: ex_chain_def)
  have h2: "length [ItemV []] = (1::nat)" by simp
  have h3: "\<forall>i<(1::nat). stage_result (ex_chain ! i) ((ItemV [] # [ItemV []]) ! i) DEFAULT_TIMEOUT
              = Inr ([ItemV []] ! i) \<and> \<not> is_exception ([ItemV []] ! i)"
    by (simp add: ex_chain_def ex_blocker_def ex_pipeline_def stage_result_def)
  have h4: "stage_result (ex_chain ! 1) ((ItemV [] # [ItemV []]) ! 1) DEFAULT_TIMEOUT = Inr (ExcV ex_blocked)"
    by (simp add: ex_chain_def ex_blocker_def ex_pipeline_def stage_result_def)
  have h5: "handle_thing_with_pipelines (ItemV []) ex_chain DEFAULT_TIMEOUT ?s
      = (fst (handle_thing_with_pipelines (ItemV []) ex_chain DEFAULT_TIMEOUT ?s),
         snd (handle_thing_with_pipelines (ItemV []) ex_chain DEFAULT_TIMEOUT ?s))"
    by simp
  have ip: "ex_chain = item_pipelines ?s" by simp
  note T = pipeline_error_drops_thing[OF h1 h2 h3 h4 h5]
  from T ip have c: "collect (ItemV []) ?s =
      (Inl ex_blocked, snd (handle_thing_with_pipelines (ItemV []) ex_chain DEFAULT_TIMEOUT ?s))"
    by blast
  have e0: "process_calls (trace ?s) = []" "total_of ''Item'' (drop_reports ?s) = 0"
      "total_of ''Item'' (reports ?s) = 0"
    by (simp_all add: ex_ant_def total_of_def)
  have n: "zip (map pname (take (Suc 1) ex_chain)) [ItemV [], ItemV []] = [(''A'', ItemV []), (''B'', ItemV [])]"
    by (simp add: ex_chain_def ex_blocker_def ex_pipeline_def)
  have item: "stage_result (ex_chain ! 0) (ItemV []) DEFAULT_TIMEOUT = Inr (ItemV [])
   \<and> stage_result (ex_chain ! 1) (ItemV []) DEFAULT_TIMEOUT = Inr (ExcV ex_blocked)
   \<and> fst (collect (ItemV []) ?s) = Inl ex_blocked
   \<and> process_calls (trace (snd (collect (ItemV []) ?s))) = [(''A'', ItemV []), (''B'', ItemV [])]
   \<and> total_of ''Item'' (drop_reports (snd (collect (ItemV []) ?s))) = 1
   \<and> total_of ''Item'' (reports (snd (collect (ItemV []) ?s))) = 0"
    using T c e0 n h3 h4 by simp
  let ?q = "ex_ant\<lparr>request_pipelines := ex_chain\<rparr>"
  let ?rq = "RequestV ex_request"
  have q2: "length [?rq] = (1::nat)" by simp
  have q3: "\<forall>i<(1::nat). stage_result (ex_chain ! i) ((?rq # [?rq]) ! i) DEFAULT_TIMEOUT
              = Inr ([?rq] ! i) \<and> \<not> is_exception ([?rq] ! i)"
    by (simp add: ex_chain_def ex_blocker_def ex_pipeline_def stage_result_def)
  have q4: "stage_result (ex_chain ! 1) ((?rq # [?rq]) ! 1) DEFAULT_TIMEOUT = Inr (ExcV ex_blocked)"
    by (simp add: ex_chain_def ex_blocker_def ex_pipeline_def stage_result_def)
  note Q = pipeline_error_drops_thing[OF h1 q2 q3 q4 surjective_pairing, where s = ?q]
  have qc: "ex_chain = request_pipelines ?q" "DEFAULT_TIMEOUT = request_timeout ?q"
      "total_of ''Request'' (drop_reports ?q) = 0"
    by (simp_all add: ex_ant_def total_of_def)
  from Q qc have qr: "request ex_request ?q =
      (Inl ex_blocked, snd (handle_thing_with_pipelines ?rq ex_chain DEFAULT_TIMEOUT ?q))"
    by blast
  from Q qc have qd: "total_of ''Request'' (drop_reports
      (snd (handle_thing_with_pipelines ?rq ex_chain DEFAULT_TIMEOUT ?q))) = 1"
    by simp
  let ?rs = "ResponseV ex_response"
  let ?sa = "report ?rq False ex_single"
  let ?s2 = "snd (send ?rq ?sa)"
  have p0: "handle_thing_with_pipelines ?rq (request_pipelines ex_single) (request_timeout ex_single)
      ex_single = (Inr ?rq, ex_single)"
    by (simp add: handle_thing_with_pipelines_def ex_single_def ex_ant_def)
  have sa: "request_retries ?sa = 0" "request_timeout ?sa = DEFAULT_TIMEOUT"
      "net ?sa = (\<lambda>n t kw. Inr ex_ok)" "response_pipelines ?sa = ex_chain"
      "drop_reports ?sa = []" "reports ?sa = [(''Request'', 0, 1)]" "trace ?sa = []"
      "sessions ?sa = []"
    by (simp_all add: report_def time_time_def emit_def Let_def ex_single_def ex_ant_def)
  have snd1: "fst (send ?rq ?sa) = Inr ex_response"
    using sa by (simp add: send_def timeout_wrapper_def raw_request_def acquire_def Let_def
        ex_response_def emit_def written_request_def ex_request_def)
  have snd2: "response_pipelines ?s2 = ex_chain" "request_timeout ?s2 = DEFAULT_TIMEOUT"
      "drop_reports ?s2 = []" "reports ?s2 = [(''Request'', 0, 1)]" "process_calls (trace ?s2) = []"
    using sa by (simp_all add: send_def timeout_wrapper_def raw_request_def acquire_def Let_def
        emit_def process_calls_append)
  have p1: "send ?rq ?sa = (Inr ex_response, ?s2)"
    using snd1 by (cases "send ?rq ?sa") simp
  have r2: "length [?rs] = (1::nat)" by simp
  have r3: "\<forall>i<(1::nat). stage_result (ex_chain ! i) ((?rs # [?rs]) ! i) DEFAULT_TIMEOUT
              = Inr ([?rs] ! i) \<and> \<not> is_exception ([?rs] ! i)"
    by (simp add: ex_chain_def ex_blocker_def ex_pipeline_def stage_result_def)
  have r4: "stage_result (ex_chain ! 1) ((?rs # [?rs]) ! 1) DEFAULT_TIMEOUT = Inr (ExcV ex_blocked)"
    by (simp add: ex_chain_def ex_blocker_def ex_pipeline_def stage_result_def)
  note R = pipeline_error_drops_thing[OF h1 r2 r3 r4 surjective_pairing, where s = ?s2]
  have rr: "request ex_request ex_single =
      (Inl ex_blocked, snd (handle_thing_with_pipelines ?rs ex_chain DEFAULT_TIMEOUT ?s2))"
    using R[THEN conjunct2, THEN conjunct2, THEN conjunct2, THEN conjunct2, THEN conjunct2,
        THEN conjunct2, rule_format, of ex_request ex_single ?rq ex_single ex_response]
      p0 p1 snd2 by simp
  have n2: "zip (map pname (take (Suc 1) ex_chain)) [?rs, ?rs] = [(''A'', ?rs), (''B'', ?rs)]"
    by (simp add: ex_chain_def ex_blocker_def ex_pipeline_def)
  from R snd2 n2 have rd:
    "process_calls (trace (snd (handle_thing_with_pipelines ?rs ex_chain DEFAULT_TIMEOUT ?s2)))
        = [(''A'', ?rs), (''B'', ?rs)]
      \<and> total_of ''Response''
           (drop_reports (snd (handle_thing_with_pipelines ?rs ex_chain DEFAULT_TIMEOUT ?s2))) = 1
      \<and> total_of ''Request''
           (reports (snd (handle_thing_with_pipelines ?rs ex_chain DEFAULT_TIMEOUT ?s2))) = 1"
    by (simp add: total_of_def)
  show ?thesis using item qr qd rr rd by simp
qed

text \<open>
  Claim C9. When the awaited process result of every stage is a value that is not an
  exception instance (\<open>None\<close> included), every stage is invoked on the output of the one
  before, the runner returns the output of the last stage (the Thing itself for an empty
  chain), and neither the dropped nor the delivered counters change.
\<close>

theorem non_error_results_continue:
  assumes len: "length vs = length ps"
    and pass: "\<forall>i<length ps. stage_result (ps ! i) ((thing # vs) ! i) t = Inr (vs ! i)
                 \<and> \<not> is_exception (vs ! i)"
  shows "fst (handle_thing_with_pipelines thing ps t s) = Inr (last (thing # vs))
    \<and> process_calls (trace (snd (handle_thing_with_pipelines thing ps t s)))
        = process_calls (trace s) @ zip (map pname ps) (thing # vs)
    \<and> drop_reports (snd (handle_thing_with_pipelines thing ps t s)) = drop_reports s
    \<and> reports (snd (handle_thing_with_pipelines thing ps t s)) = reports s"
proof -
  have "handle_loop thing t (ps @ []) thing s
      = handle_loop thing t [] (last (thing # vs)) (emit (chain_events t ps (thing # vs)) s)"
    by (rule chain_pass[OF len pass])
  then have "handle_thing_with_pipelines thing ps t s
      = (Inr (last (thing # vs)), emit (chain_events t ps (thing # vs)) s)"
    by (simp add: handle_thing_with_pipelines_def)
  then show ?thesis
    by (simp add: process_calls_append process_calls_chain)
qed

theorem non_error_results_continue_witness:
  "stage_result (ex_none_chain ! 1) (ItemV []) DEFAULT_TIMEOUT = Inr NoneV
   \<and> fst (handle_thing_with_pipelines (ItemV []) ex_none_chain DEFAULT_TIMEOUT ex_ant)
       = Inr (ObjV ''NoneType'')
   \<and> process_calls (trace (snd (handle_thing_with_pipelines (ItemV []) ex_none_chain DEFAULT_TIMEOUT ex_ant)))
       = [(''A'', ItemV []), (''N'', ItemV []), (''T'', NoneV)]
   \<and> drop_reports (snd (handle_thing_with_pipelines (ItemV []) ex_none_chain DEFAULT_TIMEOUT ex_ant)) = []"
proof -
  let ?vs = "[ItemV [], NoneV, ObjV ''NoneType'']"
  have h1: "length ?vs = length ex_none_chain" by (simp add: ex_none_chain_def)
  have h2: "\<forall>i<length ex_none_chain.
      stage_result (ex_none_chain ! i) ((ItemV [] # ?vs) ! i) DEFAULT_TIMEOUT = Inr (?vs ! i)
      \<and> \<not> is_exception (?vs ! i)"
    by (simp add: ex_none_chain_def ex_pipeline_def stage_result_def less_Suc_eq)
  have e: "process_calls (trace ex_ant) = []" "drop_reports ex_ant = []"
    by (simp_all add: ex_ant_def)
  have n: "zip (map pname ex_none_chain) (ItemV [] # ?vs)
      = [(''A'', ItemV []), (''N'', ItemV []), (''T'', NoneV)]"
    "stage_result (ex_none_chain ! 1) (ItemV []) DEFAULT_TIMEOUT = Inr NoneV"
    by (simp_all add: ex_none_chain_def ex_pipeline_def stage_result_def)
  show ?thesis
    using non_error_results_continue[OF h1 h2, of ex_ant] e n by simp
qed

lemma exn_not_own_cause: "Exn c m (Some e) \<noteq> e"
proof
  assume "Exn c m (Some e) = e"
  then have "size (Exn c m (Some e)) = size e" by simp
  then show False by simp
qed

text \<open>
  Claim C3, as stated, fails: a stage that returns a \<open>ValueError\<close> makes the runner
  raise that very \<open>ValueError\<close>, which is not a \<open>ThingDropped\<close> and carries no cause.
\<close>

theorem thing_dropped_wrapper_counterexample:
  "stage_result ex_blocker (ItemV []) DEFAULT_TIMEOUT = Inr (ExcV ex_blocked)
   \<and> fst (handle_thing_with_pipelines (ItemV []) [ex_blocker] DEFAULT_TIMEOUT ex_ant)
       = Inl (Exn ''ValueError'' ''blocked'' None)
   \<and> exn_class (Exn ''ValueError'' ''blocked'' None) \<noteq> ''ThingDropped''
   \<and> exn_cause (Exn ''ValueError'' ''blocked'' None) \<noteq> Some ex_blocked"
  by (simp add: stage_result_def ex_blocker_def ex_pipeline_def ex_blocked_def
        handle_thing_with_pipelines_def)

text \<open>
  Claim C3, amended. Whenever the awaited process result of a stage is an exception
  instance, the stages before it having passed, the runner fails with that exception
  value itself, unchanged (so it is a \<open>ThingDropped\<close> only when the stage's own value is
  one), and never with a \<open>ThingDropped\<close> that carries it as its cause.
\<close>

theorem stage_error_raised_unchanged:
  assumes k: "k < length ps" and len: "length vs = k"
    and pass: "\<forall>i<k. stage_result (ps ! i) ((thing # vs) ! i) t = Inr (vs ! i) \<and> \<not> is_exception (vs ! i)"
    and err: "stage_result (ps ! k) ((thing # vs) ! k) t = Inr (ExcV e)"
  shows "fst (handle_thing_with_pipelines thing ps t s) = Inl e
    \<and> (\<forall>m. fst (handle_thing_with_pipelines thing ps t s) \<noteq> Inl (Exn ''ThingDropped'' m (Some e)))"
  unfolding handle_thing_with_pipelines_def
  using exn_not_own_cause[of "''ThingDropped''" _ e, symmetric]
  by (simp add: chain_drop[OF k len pass err])

theorem stage_error_raised_unchanged_witness:
  "stage_result (ex_chain ! 1) (ItemV []) DEFAULT_TIMEOUT = Inr (ExcV ex_blocked)
   \<and> fst (handle_thing_with_pipelines (ItemV []) ex_chain DEFAULT_TIMEOUT ex_ant) = Inl ex_blocked"
proof -
  have h1: "(1::nat) < length ex_chain" by (simp add: ex_chain_def)
  have h2: "length [ItemV []] = (1::nat)" by simp
  have h3: "\<forall>i<(1::nat). stage_result (ex_chain ! i) ((ItemV [] # [ItemV []]) ! i) DEFAULT_TIMEOUT
              = Inr ([ItemV []] ! i) \<and> \<not> is_exception ([ItemV []] ! i)"
    by (simp add: ex_chain_def ex_blocker_def ex_pipeline_def stage_result_def)
  have h4: "stage_result (ex_chain ! 1) ((ItemV [] # [ItemV []]) ! 1) DEFAULT_TIMEOUT = Inr (ExcV ex_blocked)"
    by (simp add: ex_chain_def ex_blocker_def ex_pipeline_def stage_result_def)
  show ?thesis
    using stage_error_raised_unchanged[OF h1 h2 h3 h4, of ex_ant] h4 by auto
qed

subsection \<open>The bound of \<open>collect\<close>\<close>

lemma emit_request_timeout:
  "emit evs (s\<lparr>request_timeout := x\<rparr>) = (emit evs s)\<lparr>request_timeout := x\<rparr>"
  by (simp add: emit_def)

lemma report_request_timeout:
  "report thing d (s\<lparr>request_timeout := x\<rparr>) = (report thing d s)\<lparr>request_timeout := x\<rparr>"
  by (simp add: report_def time_time_def emit_def Let_def)

lemma handle_loop_request_timeout:
  "handle_loop raw t ps v (s\<lparr>request_timeout := x\<rparr>) =
     (fst (handle_loop raw t ps v s), (snd (handle_loop raw t ps v s))\<lparr>request_timeout := x\<rparr>)"
proof (induction ps arbitrary: v s)
  case Nil
  show ?case by simp
next
  case (Cons p ps)
  show ?case
    by (simp add: Let_def emit_request_timeout report_request_timeout Cons.IH
          split: proc_result.splits sum.splits val.splits)
qed

lemma handle_loop_trace:
  "\<exists>evs. trace (snd (handle_loop raw t ps v s)) = trace s @ evs \<and> set (await_bounds evs) \<subseteq> {t}"
proof (induction ps arbitrary: v s)
  case Nil
  show ?case by simp
next
  case (Cons p ps)
  have rep: "\<And>s0 evs0. set (await_bounds evs0) \<subseteq> {t} \<Longrightarrow>
      \<exists>evs. trace (report raw True (emit evs0 s0)) = trace s0 @ evs \<and> set (await_bounds evs) \<subseteq> {t}"
  proof -
    fix s0 evs0 assume a: "set (await_bounds evs0) \<subseteq> {t}"
    obtain evs1 where "trace (report raw True (emit evs0 s0)) = trace (emit evs0 s0) @ evs1"
        "await_bounds evs1 = []"
      using report_trace[of raw True "emit evs0 s0"] by auto
    then have "trace (report raw True (emit evs0 s0)) = trace s0 @ (evs0 @ evs1)
        \<and> set (await_bounds (evs0 @ evs1)) \<subseteq> {t}"
      using a by (simp add: await_bounds_append)
    then show "\<exists>evs. trace (report raw True (emit evs0 s0)) = trace s0 @ evs \<and> set (await_bounds evs) \<subseteq> {t}"
      by blast
  qed
  have rec: "\<And>s0 evs0 w. set (await_bounds evs0) \<subseteq> {t} \<Longrightarrow>
      \<exists>evs. trace (snd (handle_loop raw t ps w (emit evs0 s0))) = trace s0 @ evs \<and> set (await_bounds evs) \<subseteq> {t}"
  proof -
    fix s0 evs0 w assume a: "set (await_bounds evs0) \<subseteq> {t}"
    obtain evs1 where "trace (snd (handle_loop raw t ps w (emit evs0 s0))) = trace (emit evs0 s0) @ evs1"
        "set (await_bounds evs1) \<subseteq> {t}"
      using Cons.IH[of w "emit evs0 s0"] by auto
    then have "trace (snd (handle_loop raw t ps w (emit evs0 s0))) = trace s0 @ (evs0 @ evs1)
        \<and> set (await_bounds (evs0 @ evs1)) \<subseteq> {t}"
      using a by (simp add: await_bounds_append)
    then show "\<exists>evs. trace (snd (handle_loop raw t ps w (emit evs0 s0))) = trace s0 @ evs \<and> set (await_bounds evs) \<subseteq> {t}"
      by blast
  qed
  have a1: "set (await_bounds [Process (pname p) v]) \<subseteq> {t}" by simp
  have a2: "set (await_bounds [Process (pname p) v, Await (pname p) t]) \<subseteq> {t}" by simp
  show ?case
  proof (cases "process p v")
    case (Plain w)
    then show ?thesis using rep[OF a1, of s] rec[OF a1, of w s]
      by (cases w) (simp_all add: Let_def)
  next
    case (Coro c)
    show ?thesis
    proof (cases "c t")
      case (Inl e)
      then show ?thesis using Coro by (simp add: Let_def emit_emit)
    next
      case (Inr w)
      then show ?thesis using Coro rep[OF a2, of s] rec[OF a2, of w s]
        by (cases w) (simp_all add: Let_def emit_emit)
    qed
  next
    case (Raises e)
    then show ?thesis by (simp add: Let_def)
  qed
qed

text \<open>
  Claim C10. \<open>collect\<close> runs the item pipelines in declared order, each stage on the
  output of the one before, and awaits every suspending stage under the library default
  bound \<open>DEFAULT_TIMEOUT\<close>, never under \<open>request_timeout\<close>: changing \<open>request_timeout\<close>
  changes neither its result nor anything else it does. When every stage, awaited under
  \<open>DEFAULT_TIMEOUT\<close>, yields a value that is not an exception, \<open>collect\<close> reports the item
  it was given as delivered and returns \<open>None\<close>. When a stage raises, fails or times out
  under \<open>DEFAULT_TIMEOUT\<close>, \<open>collect\<close> fails with that exception and reports nothing;
  when a stage yields an exception value, \<open>collect\<close> fails with it and reports the item
  as dropped.
\<close>

theorem collect_default_timeout:
  "collect item (s\<lparr>request_timeout := t\<rparr>)
     = (fst (collect item s), (snd (collect item s))\<lparr>request_timeout := t\<rparr>)
   \<and> (\<exists>evs. trace (snd (collect item s)) = trace s @ evs
          \<and> set (await_bounds evs) \<subseteq> {DEFAULT_TIMEOUT})
   \<and> (\<forall>v s1. handle_thing_with_pipelines item (item_pipelines s) DEFAULT_TIMEOUT s = (Inr v, s1)
          \<longrightarrow> collect item s = (Inr NoneV, report item False s1))
   \<and> (\<forall>v. fst (collect item s) = Inr v \<longrightarrow> v = NoneV)
   \<and> (\<forall>vs. length vs = length (item_pipelines s)
          \<and> (\<forall>i<length (item_pipelines s).
                 stage_result (item_pipelines s ! i) ((item # vs) ! i) DEFAULT_TIMEOUT = Inr (vs ! i)
                 \<and> \<not> is_exception (vs ! i))
          \<longrightarrow> collect item s =
                (Inr NoneV,
                 report item False
                   (emit (chain_events DEFAULT_TIMEOUT (item_pipelines s) (item # vs)) s)))
   \<and> (\<forall>k vs e. k < length (item_pipelines s) \<and> length vs = k
          \<and> (\<forall>i<k. stage_result (item_pipelines s ! i) ((item # vs) ! i) DEFAULT_TIMEOUT = Inr (vs ! i)
                 \<and> \<not> is_exception (vs ! i))
          \<and> stage_result (item_pipelines s ! k) ((item # vs) ! k) DEFAULT_TIMEOUT = Inl e
          \<longrightarrow> collect item s =
                (Inl e,
                 emit (chain_events DEFAULT_TIMEOUT (take (Suc k) (item_pipelines s)) (item # vs)) s))
   \<and> (\<forall>k vs e. k < length (item_pipelines s) \<and> length vs = k
          \<and> (\<forall>i<k. stage_result (item_pipelines s ! i) ((item # vs) ! i) DEFAULT_TIMEOUT = Inr (vs ! i)
                 \<and> \<not> is_exception (vs ! i))
          \<and> stage_result (item_pipelines s ! k) ((item # vs) ! k) DEFAULT_TIMEOUT = Inr (ExcV e)
          \<longrightarrow> collect item s =
                (Inl e,
                 report item True
                   (emit (chain_events DEFAULT_TIMEOUT (take (Suc k) (item_pipelines s)) (item # vs)) s)))"
proof -
  let ?h = "handle_loop item DEFAULT_TIMEOUT (item_pipelines s) item s"
  have p1: "collect item (s\<lparr>request_timeout := t\<rparr>)
     = (fst (collect item s), (snd (collect item s))\<lparr>request_timeout := t\<rparr>)"
    by (cases ?h; cases "fst ?h")
       (simp_all add: collect_def handle_thing_with_pipelines_def handle_loop_request_timeout
          report_request_timeout)
  obtain evs where evs: "trace (snd ?h) = trace s @ evs" "set (await_bounds evs) \<subseteq> {DEFAULT_TIMEOUT}"
    using handle_loop_trace[of item DEFAULT_TIMEOUT "item_pipelines s" item s] by auto
  obtain evs1 where evs1: "trace (report item False (snd ?h)) = trace (snd ?h) @ evs1"
      "await_bounds evs1 = []"
    using report_trace[of item False "snd ?h"] by auto
  have p2: "\<exists>evs. trace (snd (collect item s)) = trace s @ evs
          \<and> set (await_bounds evs) \<subseteq> {DEFAULT_TIMEOUT}"
  proof (cases "fst ?h")
    case (Inl e)
    then have "snd (collect item s) = snd ?h"
      by (cases ?h) (simp add: collect_def handle_thing_with_pipelines_def)
    then show ?thesis using evs by auto
  next
    case (Inr v)
    then have "snd (collect item s) = report item False (snd ?h)"
      by (cases ?h) (simp add: collect_def handle_thing_with_pipelines_def)
    then have "trace (snd (collect item s)) = trace s @ (evs @ evs1)
        \<and> set (await_bounds (evs @ evs1)) \<subseteq> {DEFAULT_TIMEOUT}"
      using evs evs1 by (simp add: await_bounds_append)
    then show ?thesis by blast
  qed
  have p3: "\<forall>v s1. handle_thing_with_pipelines item (item_pipelines s) DEFAULT_TIMEOUT s = (Inr v, s1)
          \<longrightarrow> collect item s = (Inr NoneV, report item False s1)"
    by (simp add: collect_def)
  have p4: "\<forall>v. fst (collect item s) = Inr v \<longrightarrow> v = NoneV"
    by (cases ?h; cases "fst ?h") (auto simp: collect_def handle_thing_with_pipelines_def)
  have p5: "\<forall>vs. length vs = length (item_pipelines s)
          \<and> (\<forall>i<length (item_pipelines s).
                 stage_result (item_pipelines s ! i) ((item # vs) ! i) DEFAULT_TIMEOUT = Inr (vs ! i)
                 \<and> \<not> is_exception (vs ! i))
          \<longrightarrow> collect item s =
                (Inr NoneV,
                 report item False
                   (emit (chain_events DEFAULT_TIMEOUT (item_pipelines s) (item # vs)) s))"
  proof (intro allI impI)
    fix vs
    assume a: "length vs = length (item_pipelines s)
          \<and> (\<forall>i<length (item_pipelines s).
                 stage_result (item_pipelines s ! i) ((item # vs) ! i) DEFAULT_TIMEOUT = Inr (vs ! i)
                 \<and> \<not> is_exception (vs ! i))"
    have "handle_loop item DEFAULT_TIMEOUT (item_pipelines s @ []) item s
        = handle_loop item DEFAULT_TIMEOUT [] (last (item # vs))
            (emit (chain_events DEFAULT_TIMEOUT (item_pipelines s) (item # vs)) s)"
      using a by (intro chain_pass) simp_all
    then show "collect item s =
                (Inr NoneV,
                 report item False
                   (emit (chain_events DEFAULT_TIMEOUT (item_pipelines s) (item # vs)) s))"
      by (simp add: collect_def handle_thing_with_pipelines_def)
  qed
  have p6: "\<forall>k vs e. k < length (item_pipelines s) \<and> length vs = k
          \<and> (\<forall>i<k. stage_result (item_pipelines s ! i) ((item # vs) ! i) DEFAULT_TIMEOUT = Inr (vs ! i)
                 \<and> \<not> is_exception (vs ! i))
          \<and> stage_result (item_pipelines s ! k) ((item # vs) ! k) DEFAULT_TIMEOUT = Inl e
          \<longrightarrow> collect item s =
                (Inl e,
                 emit (chain_events DEFAULT_TIMEOUT (take (Suc k) (item_pipelines s)) (item # vs)) s)"
  proof (intro allI impI)
    fix k vs e
    assume a: "k < length (item_pipelines s) \<and> length vs = k
          \<and> (\<forall>i<k. stage_result (item_pipelines s ! i) ((item # vs) ! i) DEFAULT_TIMEOUT = Inr (vs ! i)
                 \<and> \<not> is_exception (vs ! i))
          \<and> stage_result (item_pipelines s ! k) ((item # vs) ! k) DEFAULT_TIMEOUT = Inl e"
    have "handle_loop item DEFAULT_TIMEOUT (item_pipelines s) item s =
        (Inl e, emit (chain_events DEFAULT_TIMEOUT (take (Suc k) (item_pipelines s)) (item # vs)) s)"
      using a by (intro chain_raise) simp_all
    then show "collect item s =
                (Inl e,
                 emit (chain_events DEFAULT_TIMEOUT (take (Suc k) (item_pipelines s)) (item # vs)) s)"
      by (simp add: collect_def handle_thing_with_pipelines_def)
  qed
  have p7: "\<forall>k vs e. k < length (item_pipelines s) \<and> length vs = k
          \<and> (\<forall>i<k. stage_result (item_pipelines s ! i) ((item # vs) ! i) DEFAULT_TIMEOUT = Inr (vs ! i)
                 \<and> \<not> is_exception (vs ! i))
          \<and> stage_result (item_pipelines s ! k) ((item # vs) ! k) DEFAULT_TIMEOUT = Inr (ExcV e)
          \<longrightarrow> collect item s =
                (Inl e,
                 report item True
                   (emit (chain_events DEFAULT_TIMEOUT (take (Suc k) (item_pipelines s)) (item # vs)) s))"
  proof (intro allI impI)
    fix k vs e
    assume a: "k < length (item_pipelines s) \<and> length vs = k
          \<and> (\<forall>i<k. stage_result (item_pipelines s ! i) ((item # vs) ! i) DEFAULT_TIMEOUT = Inr (vs ! i)
                 \<and> \<not> is_exception (vs ! i))
          \<and> stage_result (item_pipelines s ! k) ((item # vs) ! k) DEFAULT_TIMEOUT = Inr (ExcV e)"
    have "handle_loop item DEFAULT_TIMEOUT (item_pipelines s) item s =
        (Inl e, report item True
           (emit (chain_events DEFAULT_TIMEOUT (take (Suc k) (item_pipelines s)) (item # vs)) s))"
      using a by (intro chain_drop) simp_all
    then show "collect item s =
                (Inl e,
                 report item True
                   (emit (chain_events DEFAULT_TIMEOUT (take (Suc k) (item_pipelines s)) (item # vs)) s))"
      by (simp add: collect_def handle_thing_with_pipelines_def)
  qed
  from p1 p2 p3 p4 p5 p6 p7 show ?thesis by blast
qed

theorem collect_default_timeout_witness:
  "stage_result ex_timed (ItemV []) (Some 1) = Inl (Exn ''TimeoutError'' [] None)
   \<and> stage_result ex_timed (ItemV []) DEFAULT_TIMEOUT = Inr (ItemV [])
   \<and> fst (collect (ItemV []) (ex_ant\<lparr>item_pipelines := [ex_timed], request_timeout := Some 1\<rparr>))
       = Inr NoneV
   \<and> trace (snd (collect (ItemV []) (ex_ant\<lparr>item_pipelines := [ex_timed], request_timeout := Some 1\<rparr>)))
       = [Process ''T'' (ItemV []), Await ''T'' DEFAULT_TIMEOUT]
   \<and> total_of ''Item'' (reports (snd (collect (ItemV [])
        (ex_ant\<lparr>item_pipelines := [ex_timed], request_timeout := Some 1\<rparr>)))) = 1"
proof -
  let ?s = "ex_ant\<lparr>item_pipelines := [ex_timed]\<rparr>"
  have st: "stage_result ex_timed (ItemV []) (Some 1) = Inl (Exn ''TimeoutError'' [] None)"
      "stage_result ex_timed (ItemV []) DEFAULT_TIMEOUT = Inr (ItemV [])"
    by (simp_all add: stage_result_def ex_timed_def ex_pipeline_def DEFAULT_TIMEOUT_def)
  have h: "length [ItemV []] = length (item_pipelines ?s)
          \<and> (\<forall>i<length (item_pipelines ?s).
                 stage_result (item_pipelines ?s ! i) ((ItemV [] # [ItemV []]) ! i) DEFAULT_TIMEOUT
                   = Inr ([ItemV []] ! i)
                 \<and> \<not> is_exception ([ItemV []] ! i))"
    using st by simp
  note T = collect_default_timeout[where item = "ItemV []" and s = ?s and t = "Some 1"]
  have ev: "chain_events DEFAULT_TIMEOUT (item_pipelines ?s) [ItemV [], ItemV []]
      = [Process ''T'' (ItemV []), Await ''T'' DEFAULT_TIMEOUT]"
    by (simp add: chain_events_def stage_events_def ex_timed_def ex_pipeline_def)
  have c: "collect (ItemV []) ?s = (Inr NoneV, report (ItemV []) False
      (emit [Process ''T'' (ItemV []), Await ''T'' DEFAULT_TIMEOUT] ?s))"
    using T[THEN conjunct2, THEN conjunct2, THEN conjunct2, THEN conjunct2, THEN conjunct1,
        THEN spec, THEN mp, OF h] ev by simp
  have tr: "trace (report (ItemV []) False
      (emit [Process ''T'' (ItemV []), Await ''T'' DEFAULT_TIMEOUT] ?s))
      = [Process ''T'' (ItemV []), Await ''T'' DEFAULT_TIMEOUT]"
    by (simp add: report_def time_time_def emit_def Let_def ex_ant_def)
  have tot: "total_of ''Item'' (reports (report (ItemV []) False
      (emit [Process ''T'' (ItemV []), Await ''T'' DEFAULT_TIMEOUT] ?s))) = 1"
    by (simp add: report_delivered_totals) (simp add: ex_ant_def total_of_def)
  show ?thesis
    using T[THEN conjunct1] c st tr tot by simp
qed

subsection \<open>The periodic report\<close>





subsection \<open>The lifecycle hooks\<close>

lemma opened_append: "opened (a @ b) = opened a @ opened b"
  by (induction a rule: opened.induct) auto

lemma session_closes_append: "session_closes (a @ b) = session_closes a @ session_closes b"
  by (induction a rule: session_closes.induct) auto

lemma open_pipelines_emit:
  "open_pipelines ps s = emit (concat (map open_events ps)) s"
  by (induction ps arbitrary: s)
     (auto simp: open_events_def emit_emit emit_Nil split: option.splits)

lemma close_pipelines_emit:
  "close_pipelines ps s = emit (concat (map close_events ps)) s"
  by (induction ps arbitrary: s)
     (auto simp: close_events_def emit_emit emit_Nil split: option.splits)

lemma opened_open_events: "opened (concat (map open_events ps)) = map pname ps"
  by (induction ps) (auto simp: open_events_def opened_append split: option.splits)

lemma open_ant_emit:
  "open_ant s = emit (LogInfo Opening #
      concat (map open_events (item_pipelines s @ response_pipelines s @ request_pipelines s))) s"
  by (simp add: open_ant_def open_pipelines_emit emit_emit emit_def)

text \<open>
  Claim C4, as stated, fails: with one request pipeline \<open>A\<close> and one item pipeline \<open>B\<close>,
  the open hook of \<open>B\<close> is invoked before that of \<open>A\<close>.
\<close>

theorem open_order_counterexample:
  "opened (trace (open_ant ex_two)) = [''B'', ''A'']
   \<and> map pname (request_pipelines ex_two @ response_pipelines ex_two @ item_pipelines ex_two)
       = [''A'', ''B'']"
  by (simp add: open_ant_def ex_two_def ex_ant_def ex_blocker_def ex_pipeline_def emit_def)

text \<open>
  Claim C4, amended. \<open>open\<close> invokes the open hook of every pipeline in the order: all
  item pipelines, then all response pipelines, then all request pipelines (each list in
  declared order). A hook that fails, by raising or in its coroutine, is logged, and the
  remaining hooks are invoked all the same.
\<close>

theorem open_invokes_every_hook:
  "opened (trace (open_ant s))
     = opened (trace s) @ map pname (item_pipelines s @ response_pipelines s @ request_pipelines s)
   \<and> trace (open_ant s) = trace s @ LogInfo Opening #
        concat (map open_events (item_pipelines s @ response_pipelines s @ request_pipelines s))"
  by (simp add: open_ant_emit opened_append opened_open_events del: map_append)

theorem open_invokes_every_hook_witness:
  "hook_failure (on_spider_open ex_failing_hooks) = Some (Exn ''IOError'' ''disk'' None)
   \<and> opened (trace (open_ant ex_hooked)) = [''F'', ''A'', ''B'']
   \<and> trace (open_ant ex_hooked) = [LogInfo Opening, SpiderOpen ''F'',
        LogException ''Open pipelines with IOError'', SpiderOpen ''A'', SpiderOpen ''B'']"
  using open_invokes_every_hook[of ex_hooked]
  by (simp add: ex_hooked_def ex_ant_def ex_failing_hooks_def ex_blocker_def ex_pipeline_def
        open_events_def)

subsection \<open>Closing the sessions\<close>

lemma emit_env [simp]:
  "sessions (emit evs s) = sessions s"
  "session_close (emit evs s) = session_close s"
  "item_pipelines (emit evs s) = item_pipelines s"
  "response_pipelines (emit evs s) = response_pipelines s"
  "request_pipelines (emit evs s) = request_pipelines s"
  by (simp_all add: emit_def)

lemma session_closes_close_events: "session_closes (concat (map close_events ps)) = []"
  by (induction ps) (auto simp: close_events_def session_closes_append split: option.splits)

lemma session_closes_map: "session_closes (map (\<lambda>x. SessionClose (f x)) xs) = map f xs"
  by (induction xs) auto

lemma map_split:
  "map f l = pre @ i # post \<Longrightarrow> \<exists>xs x ys. l = xs @ x # ys \<and> pre = map f xs \<and> i = f x"
  by (auto simp: map_eq_append_conv map_eq_Cons_conv)

lemma close_sessions_ok:
  "\<forall>x\<in>set xs. session_close s (sid x) = None \<Longrightarrow>
   close_sessions (xs @ ys) s = close_sessions ys (emit (map (\<lambda>x. SessionClose (sid x)) xs) s)"
proof (induction xs arbitrary: s)
  case Nil
  show ?case by (simp add: emit_Nil)
next
  case (Cons x xs)
  have "close_sessions ((x # xs) @ ys) s = close_sessions (xs @ ys) (emit [SessionClose (sid x)] s)"
    using Cons.prems by (simp add: Let_def)
  also have "\<dots> = close_sessions ys (emit (map (\<lambda>x. SessionClose (sid x)) xs) (emit [SessionClose (sid x)] s))"
    using Cons.prems by (intro Cons.IH) simp
  finally show ?case by (simp add: emit_emit)
qed

lemma close_sessions_fail:
  "session_close s (sid x) = Some e \<Longrightarrow>
   close_sessions (x # ys) s = (Inl e, emit [SessionClose (sid x)] s)"
  by (simp add: Let_def)

lemma close_all_ok:
  assumes "\<forall>x\<in>set (sessions s). session_close s (sid (snd x)) = None"
  shows "close s = (Inr (), emit (concat (map close_events
            (item_pipelines s @ response_pipelines s @ request_pipelines s))
          @ map (\<lambda>x. SessionClose (sid (snd x))) (sessions s) @ [LogInfo Closed]) s)"
proof -
  let ?s1 = "emit (concat (map close_events
            (item_pipelines s @ response_pipelines s @ request_pipelines s))) s"
  have "\<forall>x\<in>set (map snd (sessions s)). session_close ?s1 (sid x) = None"
    using assms by simp
  from close_sessions_ok[OF this, of "[]"]
  have "close_sessions (map snd (sessions s)) ?s1
      = (Inr (), emit (map (\<lambda>x. SessionClose (sid (snd x))) (sessions s)) ?s1)"
    by (simp add: comp_def)
  then show ?thesis
    by (simp add: close_def close_pipelines_emit emit_emit Let_def del: map_append map_map)
qed

lemma close_first_failure:
  assumes split: "map snd (sessions s) = xs @ x # ys"
    and ok: "\<forall>y\<in>set xs. session_close s (sid y) = None"
    and bad: "session_close s (sid x) = Some e"
  shows "close s = (Inl e, emit (concat (map close_events
            (item_pipelines s @ response_pipelines s @ request_pipelines s))
          @ map (\<lambda>x. SessionClose (sid x)) xs @ [SessionClose (sid x)]) s)"
proof -
  let ?s1 = "emit (concat (map close_events
            (item_pipelines s @ response_pipelines s @ request_pipelines s))) s"
  have ok1: "\<forall>y\<in>set xs. session_close ?s1 (sid y) = None" using ok by simp
  have "close_sessions (xs @ x # ys) ?s1
      = close_sessions (x # ys) (emit (map (\<lambda>x. SessionClose (sid x)) xs) ?s1)"
    by (rule close_sessions_ok[OF ok1])
  also have "\<dots> = (Inl e, emit [SessionClose (sid x)] (emit (map (\<lambda>x. SessionClose (sid x)) xs) ?s1))"
    using bad by (intro close_sessions_fail) simp
  finally show ?thesis using split
    by (simp add: close_def close_pipelines_emit emit_emit Let_def del: map_append map_map)
qed

text \<open>
  Claim C5, as stated, fails: with two pooled sessions of which the first raises when
  closed, \<open>close\<close> fails with that error and never invokes \<open>close\<close> on the second.
\<close>

theorem session_close_isolation_counterexample:
  "map (sid \<circ> snd) (sessions ex_pool) = [0, 1]
   \<and> session_close ex_pool 0 = Some (Exn ''OSError'' ''reset'' None)
   \<and> session_closes (trace (snd (close ex_pool))) = [0]
   \<and> fst (close ex_pool) = Inl (Exn ''OSError'' ''reset'' None)"
  by (simp add: close_def ex_pool_def ex_ant_def emit_def Let_def)

text \<open>
  Claim C5, amended. \<open>close\<close> first invokes the close hook of every pipeline (item, then
  response, then request pipelines, a failing hook being logged), and then invokes
  \<open>close\<close> on the pooled sessions in the order of the pool. When no session raises,
  every pooled session is closed, the end is logged and \<open>close\<close> returns. An error
  raised while closing one session is not caught: it leaves \<open>close\<close> at once, with the
  sessions after it not closed and nothing else done.
\<close>

theorem close_sessions_until_failure:
  assumes ids: "ids = map (sid \<circ> snd) (sessions s)"
    and hooks: "hooks = concat (map close_events
                  (item_pipelines s @ response_pipelines s @ request_pipelines s))"
  shows "((\<forall>i\<in>set ids. session_close s i = None) \<longrightarrow>
            close s = (Inr (), emit (hooks @ map SessionClose ids @ [LogInfo Closed]) s)
            \<and> trace (snd (close s)) = trace s @ hooks @ map SessionClose ids @ [LogInfo Closed]
            \<and> session_closes (trace (snd (close s))) = session_closes (trace s) @ ids
            \<and> fst (close s) = Inr ())
    \<and> (\<forall>pre i post e.
          ids = pre @ i # post \<and> (\<forall>j\<in>set pre. session_close s j = None)
          \<and> session_close s i = Some e \<longrightarrow>
            close s = (Inl e, emit (hooks @ map SessionClose pre @ [SessionClose i]) s)
            \<and> trace (snd (close s)) = trace s @ hooks @ map SessionClose pre @ [SessionClose i]
            \<and> session_closes (trace (snd (close s))) = session_closes (trace s) @ pre @ [i]
            \<and> fst (close s) = Inl e)"
proof (intro conjI impI allI)
  assume a: "\<forall>i\<in>set ids. session_close s i = None"
  then have ok: "\<forall>x\<in>set (sessions s). session_close s (sid (snd x)) = None"
    using ids by simp
  have evs: "map SessionClose ids = map (\<lambda>x. SessionClose (sid (snd x))) (sessions s)"
    using ids by (simp add: comp_def)
  show c: "close s = (Inr (), emit (hooks @ map SessionClose ids @ [LogInfo Closed]) s)"
    unfolding close_all_ok[OF ok] hooks evs by simp
  show "trace (snd (close s)) = trace s @ hooks @ map SessionClose ids @ [LogInfo Closed]"
    unfolding c by simp
  show "session_closes (trace (snd (close s))) = session_closes (trace s) @ ids"
    unfolding close_all_ok[OF ok] ids
    by (simp add: session_closes_append session_closes_close_events session_closes_map comp_def
          del: map_append)
  show "fst (close s) = Inr ()"
    unfolding close_all_ok[OF ok] by simp
next
  fix pre i post e
  assume a: "ids = pre @ i # post \<and> (\<forall>j\<in>set pre. session_close s j = None)
          \<and> session_close s i = Some e"
  then have "map sid (map snd (sessions s)) = pre @ i # post" using ids by simp
  from map_split[OF this] obtain xs x ys where split: "map snd (sessions s) = xs @ x # ys"
      and pre: "pre = map sid xs" and i: "i = sid x"
    by blast
  have ok: "\<forall>y\<in>set xs. session_close s (sid y) = None" using a pre by simp
  have bad: "session_close s (sid x) = Some e" using a i by simp
  have evs: "map SessionClose pre = map (\<lambda>x. SessionClose (sid x)) xs"
    using pre by simp
  show c: "close s = (Inl e, emit (hooks @ map SessionClose pre @ [SessionClose i]) s)"
    unfolding close_first_failure[OF split ok bad] hooks evs i by simp
  show "trace (snd (close s)) = trace s @ hooks @ map SessionClose pre @ [SessionClose i]"
    unfolding c by simp
  show "session_closes (trace (snd (close s))) = session_closes (trace s) @ pre @ [i]"
    unfolding close_first_failure[OF split ok bad] pre i
    by (simp add: session_closes_append session_closes_close_events session_closes_map
          del: map_append)
  show "fst (close s) = Inl e"
    unfolding close_first_failure[OF split ok bad] by simp
qed

theorem close_sessions_until_failure_witness:
  "trace (snd (close (ex_hooked_pool\<lparr>session_close := (\<lambda>n. None)\<rparr>)))
     = [SpiderClose ''F'', LogException ''Close pipelines with IOError'', SpiderClose ''B'',
        SessionClose 0, SessionClose 1, LogInfo Closed]
   \<and> fst (close (ex_hooked_pool\<lparr>session_close := (\<lambda>n. None)\<rparr>)) = Inr ()
   \<and> trace (snd (close ex_hooked_pool))
     = [SpiderClose ''F'', LogException ''Close pipelines with IOError'', SpiderClose ''B'',
        SessionClose 0]
   \<and> fst (close ex_hooked_pool) = Inl (Exn ''OSError'' ''reset'' None)"
proof -
  let ?g = "ex_hooked_pool\<lparr>session_close := (\<lambda>n. None)\<rparr>"
  have i1: "[0, 1] = map (sid \<circ> snd) (sessions ?g)"
    by (simp add: ex_hooked_pool_def ex_pool_def ex_ant_def)
  have i2: "[0, 1] = map (sid \<circ> snd) (sessions ex_hooked_pool)"
    by (simp add: ex_hooked_pool_def ex_pool_def ex_ant_def)
  have h1: "[SpiderClose ''F'', LogException ''Close pipelines with IOError'', SpiderClose ''B'']
      = concat (map close_events (item_pipelines ?g @ response_pipelines ?g @ request_pipelines ?g))"
    by (simp add: ex_hooked_pool_def ex_pool_def ex_ant_def close_events_def ex_failing_hooks_def
          ex_blocker_def ex_pipeline_def)
  have h2: "[SpiderClose ''F'', LogException ''Close pipelines with IOError'', SpiderClose ''B'']
      = concat (map close_events (item_pipelines ex_hooked_pool @ response_pipelines ex_hooked_pool
          @ request_pipelines ex_hooked_pool))"
    by (simp add: ex_hooked_pool_def ex_pool_def ex_ant_def close_events_def ex_failing_hooks_def
          ex_blocker_def ex_pipeline_def)
  have t: "trace ex_hooked_pool = []" "trace ?g = []"
      "session_close ex_hooked_pool 0 = Some (Exn ''OSError'' ''reset'' None)"
    by (simp_all add: ex_hooked_pool_def ex_pool_def ex_ant_def)
  have g: "\<forall>i\<in>set [0, 1]. session_close ?g i = None" by simp
  have a: "trace (snd (close ?g))
     = [SpiderClose ''F'', LogException ''Close pipelines with IOError'', SpiderClose ''B'',
        SessionClose 0, SessionClose 1, LogInfo Closed]
      \<and> fst (close ?g) = Inr ()"
    using close_sessions_until_failure[OF i1 h1, THEN conjunct1, THEN mp, OF g] t by simp
  have f: "[0, 1] = [] @ 0 # [1::nat] \<and> (\<forall>j\<in>set []. session_close ex_hooked_pool j = None)
      \<and> session_close ex_hooked_pool 0 = Some (Exn ''OSError'' ''reset'' None)"
    using t by simp
  have b: "trace (snd (close ex_hooked_pool))
     = [SpiderClose ''F'', LogException ''Close pipelines with IOError'', SpiderClose ''B'',
        SessionClose 0]
      \<and> fst (close ex_hooked_pool) = Inl (Exn ''OSError'' ''reset'' None)"
    using close_sessions_until_failure[OF i2 h2, THEN conjunct2, THEN spec, THEN spec, THEN spec,
        THEN spec, THEN mp, OF f] t by simp
  from a b show ?thesis by simp
qed

subsection \<open>The shutdown sequence\<close>

lemma emit_more_env [simp]:
  "class_name (emit evs s) = class_name s"
  "clock (emit evs s) = clock s"
  "ticks (emit evs s) = ticks s"
  "start_time (emit evs s) = start_time s"
  by (simp_all add: emit_def)

lemma total_report_emit:
  "total_report s = emit (map (\<lambda>(name, c0, c1). LogInfo (GetTotal c1 name)) (reports s)
      @ map (\<lambda>(name, c0, c1). LogInfo (DropTotal c1 name)) (drop_reports s)
      @ [LogInfo (RunTime (class_name s) (clock s (ticks s) - start_time s))])
     (s\<lparr>ticks := Suc (ticks s)\<rparr>)"
  by (simp add: total_report_def time_time_def emit_def Let_def)

text \<open>
  Claim C7, as stated, fails: \<open>main\<close> does not execute the shutdown sequence
  unconditionally. With a \<open>run\<close> that raises and a pooled session that raises when
  closed, the exception of \<open>run\<close> is logged and the first wait and \<open>close\<close> are
  executed, but the error of the session leaves \<open>main\<close>: there is no second wait and
  no summary.
\<close>

theorem main_unconditional_counterexample:
  "fst (ex_run (open_ant ex_bad_crawler)) = Inl (Exn ''KeyError'' ''boom'' None)
   \<and> fst (main ex_run ex_bad_crawler) = Inl (Exn ''OSError'' ''reset'' None)
   \<and> trace (snd (main ex_run ex_bad_crawler)) =
       [LogInfo Opening, SpiderOpen ''F'', LogException ''Open pipelines with IOError'',
        SpiderOpen ''A'', SpiderOpen ''B'',
        LogException ''Run ant run`s coroutine with KeyError'', WaitScheduled,
        SpiderClose ''F'', LogException ''Close pipelines with IOError'',
        SpiderClose ''A'', SpiderClose ''B'', SessionClose 0]"
  by (simp add: main_def ex_run_def open_ant_def close_def wait_scheduled_coroutines_def
        report_def time_time_def emit_def Let_def ex_bad_crawler_def ex_crawler_def
        ex_hooked_def ex_ant_def ex_failing_hooks_def ex_blocker_def ex_pipeline_def)

text \<open>
  Claim C7, amended. Whatever \<open>run\<close> does, return or raise any exception, \<open>main\<close>
  goes on: an exception of \<open>run\<close> is caught and logged, then come the wait for the
  scheduled coroutines and \<open>close\<close> (the close hooks, then the sessions), in that
  order. When \<open>close\<close> returns, that is, no pooled session raises when closed, the
  second wait and the totals per class name with the run time follow, and \<open>main\<close>
  returns. When closing a session raises, that error leaves \<open>main\<close> at once, with no
  second wait and no summary. The steps after \<open>run\<close> are the same whether it returned
  or raised, but for the log line.
\<close>

theorem main_shutdown_after_run:
  assumes run: "run (open_ant s) = (r, s2)"
    and logged: "logged = (case r of
             Inl e \<Rightarrow> [LogException (''Run ant run`s coroutine with '' @ exn_class e)]
           | Inr _ \<Rightarrow> [])"
    and hooks: "hooks = concat (map close_events
             (item_pipelines s2 @ response_pipelines s2 @ request_pipelines s2))"
  shows "((\<forall>x\<in>set (sessions s2). session_close s2 (sid (snd x)) = None) \<longrightarrow>
            fst (main run s) = Inr ()
            \<and> trace (snd (main run s)) = trace s2 @ logged @ [WaitScheduled] @ hooks
                @ map (\<lambda>x. SessionClose (sid (snd x))) (sessions s2)
                @ [LogInfo Closed, WaitScheduled]
                @ map (\<lambda>(name, c0, c1). LogInfo (GetTotal c1 name)) (reports s2)
                @ map (\<lambda>(name, c0, c1). LogInfo (DropTotal c1 name)) (drop_reports s2)
                @ [LogInfo (RunTime (class_name s2) (clock s2 (ticks s2) - start_time s2))])
    \<and> (\<forall>xs x ys e'.
          map snd (sessions s2) = xs @ x # ys
          \<and> (\<forall>y\<in>set xs. session_close s2 (sid y) = None)
          \<and> session_close s2 (sid x) = Some e' \<longrightarrow>
            fst (main run s) = Inl e'
            \<and> trace (snd (main run s)) = trace s2 @ logged @ [WaitScheduled] @ hooks
                @ map (\<lambda>x. SessionClose (sid x)) xs @ [SessionClose (sid x)])"
proof -
  let ?s4 = "emit (logged @ [WaitScheduled]) s2"
  have s3: "wait_scheduled_coroutines
      (case r of Inl e \<Rightarrow> emit [LogException (''Run ant run`s coroutine with '' @ exn_class e)] s2
       | Inr _ \<Rightarrow> s2) = ?s4"
    unfolding logged by (cases r) (simp_all add: wait_scheduled_coroutines_def emit_emit)
  have m: "main run s =
      (case close ?s4 of
         (Inl e, s5) \<Rightarrow> (Inl e, s5)
       | (Inr _, s5) \<Rightarrow> (Inr (), total_report (wait_scheduled_coroutines s5)))"
    using run s3 by (simp add: main_def Let_def)
  have good: "(\<forall>x\<in>set (sessions s2). session_close s2 (sid (snd x)) = None) \<longrightarrow>
            fst (main run s) = Inr ()
            \<and> trace (snd (main run s)) = trace s2 @ logged @ [WaitScheduled] @ hooks
                @ map (\<lambda>x. SessionClose (sid (snd x))) (sessions s2)
                @ [LogInfo Closed, WaitScheduled]
                @ map (\<lambda>(name, c0, c1). LogInfo (GetTotal c1 name)) (reports s2)
                @ map (\<lambda>(name, c0, c1). LogInfo (DropTotal c1 name)) (drop_reports s2)
                @ [LogInfo (RunTime (class_name s2) (clock s2 (ticks s2) - start_time s2))]"
  proof
    assume closes: "\<forall>x\<in>set (sessions s2). session_close s2 (sid (snd x)) = None"
    have ok: "\<forall>x\<in>set (sessions ?s4). session_close ?s4 (sid (snd x)) = None"
      using closes by simp
    show "fst (main run s) = Inr ()
            \<and> trace (snd (main run s)) = trace s2 @ logged @ [WaitScheduled] @ hooks
                @ map (\<lambda>x. SessionClose (sid (snd x))) (sessions s2)
                @ [LogInfo Closed, WaitScheduled]
                @ map (\<lambda>(name, c0, c1). LogInfo (GetTotal c1 name)) (reports s2)
                @ map (\<lambda>(name, c0, c1). LogInfo (DropTotal c1 name)) (drop_reports s2)
                @ [LogInfo (RunTime (class_name s2) (clock s2 (ticks s2) - start_time s2))]"
      unfolding m close_all_ok[OF ok] hooks
      by (simp add: total_report_emit wait_scheduled_coroutines_def emit_emit del: map_append)
  qed
  have bad: "\<forall>xs x ys e'.
          map snd (sessions s2) = xs @ x # ys
          \<and> (\<forall>y\<in>set xs. session_close s2 (sid y) = None)
          \<and> session_close s2 (sid x) = Some e' \<longrightarrow>
            fst (main run s) = Inl e'
            \<and> trace (snd (main run s)) = trace s2 @ logged @ [WaitScheduled] @ hooks
                @ map (\<lambda>x. SessionClose (sid x)) xs @ [SessionClose (sid x)]"
  proof (intro allI impI)
    fix xs x ys e'
    assume a: "map snd (sessions s2) = xs @ x # ys
          \<and> (\<forall>y\<in>set xs. session_close s2 (sid y) = None)
          \<and> session_close s2 (sid x) = Some e'"
    have split: "map snd (sessions ?s4) = xs @ x # ys" using a by simp
    have ok: "\<forall>y\<in>set xs. session_close ?s4 (sid y) = None" using a by simp
    have fail: "session_close ?s4 (sid x) = Some e'" using a by simp
    show "fst (main run s) = Inl e'
            \<and> trace (snd (main run s)) = trace s2 @ logged @ [WaitScheduled] @ hooks
                @ map (\<lambda>x. SessionClose (sid x)) xs @ [SessionClose (sid x)]"
      unfolding m close_first_failure[OF split ok fail] hooks
      by (simp add: emit_emit del: map_append)
  qed
  from good bad show ?thesis by blast
qed

theorem main_shutdown_after_run_witness:
  "fst (ex_run (open_ant ex_crawler)) = Inl (Exn ''KeyError'' ''boom'' None)
   \<and> fst (main ex_run ex_crawler) = Inr ()
   \<and> trace (snd (main ex_run ex_crawler)) =
       [LogInfo Opening, SpiderOpen ''F'', LogException ''Open pipelines with IOError'',
        SpiderOpen ''A'', SpiderOpen ''B'',
        LogException ''Run ant run`s coroutine with KeyError'', WaitScheduled,
        SpiderClose ''F'', LogException ''Close pipelines with IOError'',
        SpiderClose ''A'', SpiderClose ''B'', SessionClose 0, LogInfo Closed, WaitScheduled,
        LogInfo (GetTotal 1 ''Item''), LogInfo (RunTime ''Spider'' 0)]
   \<and> fst (main ex_run ex_bad_crawler) = Inl (Exn ''OSError'' ''reset'' None)"
proof -
  let ?s2 = "report (ItemV []) False (open_ant ex_crawler)"
  let ?b2 = "report (ItemV []) False (open_ant ex_bad_crawler)"
  have r: "ex_run (open_ant ex_crawler) = (Inl (Exn ''KeyError'' ''boom'' None), ?s2)"
    by (simp add: ex_run_def)
  have rb: "ex_run (open_ant ex_bad_crawler) = (Inl (Exn ''KeyError'' ''boom'' None), ?b2)"
    by (simp add: ex_run_def)
  have o: "open_ant ex_crawler = emit [LogInfo Opening, SpiderOpen ''F'',
      LogException ''Open pipelines with IOError'', SpiderOpen ''A'', SpiderOpen ''B''] ex_crawler"
    by (simp add: open_ant_emit open_events_def ex_crawler_def ex_hooked_def ex_ant_def
          ex_failing_hooks_def ex_blocker_def ex_pipeline_def)
  have s2: "?s2 = (emit [LogInfo Opening, SpiderOpen ''F'',
      LogException ''Open pipelines with IOError'', SpiderOpen ''A'', SpiderOpen ''B''] ex_crawler)
      \<lparr>ticks := 1, reports := [(''Item'', 0, 1)]\<rparr>"
    unfolding o
    by (simp add: report_def time_time_def emit_def Let_def ex_crawler_def ex_hooked_def ex_ant_def)
  have c: "\<forall>x\<in>set (sessions ?s2). session_close ?s2 (sid (snd x)) = None"
    unfolding s2 by (simp add: ex_crawler_def ex_hooked_def ex_ant_def emit_def)
  have good: "fst (main ex_run ex_crawler) = Inr ()
   \<and> trace (snd (main ex_run ex_crawler)) =
       [LogInfo Opening, SpiderOpen ''F'', LogException ''Open pipelines with IOError'',
        SpiderOpen ''A'', SpiderOpen ''B'',
        LogException ''Run ant run`s coroutine with KeyError'', WaitScheduled,
        SpiderClose ''F'', LogException ''Close pipelines with IOError'',
        SpiderClose ''A'', SpiderClose ''B'', SessionClose 0, LogInfo Closed, WaitScheduled,
        LogInfo (GetTotal 1 ''Item''), LogInfo (RunTime ''Spider'' 0)]"
    using main_shutdown_after_run[where run = ex_run and s = ex_crawler, OF r refl refl,
        THEN conjunct1, THEN mp, OF c]
    unfolding s2
    by (simp add: close_events_def ex_crawler_def ex_hooked_def ex_ant_def emit_def
          ex_failing_hooks_def ex_blocker_def ex_pipeline_def)
  have b: "map snd (sessions ?b2) = [] @ \<lparr>sid = 0, cookie_jar = []\<rparr> # []
          \<and> (\<forall>y\<in>set []. session_close ?b2 (sid y) = None)
          \<and> session_close ?b2 (sid \<lparr>sid = 0, cookie_jar = []\<rparr>) = Some (Exn ''OSError'' ''reset'' None)"
    by (simp add: report_def time_time_def emit_def Let_def open_ant_emit ex_bad_crawler_def
          ex_crawler_def ex_hooked_def ex_ant_def)
  have bad: "fst (main ex_run ex_bad_crawler) = Inl (Exn ''OSError'' ''reset'' None)"
    using main_shutdown_after_run[where run = ex_run and s = ex_bad_crawler, OF rb refl refl,
        THEN conjunct2, THEN spec, THEN spec, THEN spec, THEN spec, THEN mp, OF b]
    by simp
  from r good bad show ?thesis by simp
qed

subsection \<open>The session pool\<close>

lemma update_cookies_map_of:
  "map_of (update_cookies jar cs) = map_of jar ++ map_of (rev cs)"
proof (induction cs arbitrary: jar)
  case Nil
  show ?case by (simp add: update_cookies_def)
next
  case (Cons c cs)
  obtain k v where c: "c = (k, v)" by (cases c)
  have "map_of (update_cookies jar (c # cs)) = map_of (update_cookies (AList.update k v jar) cs)"
    by (simp add: update_cookies_def c)
  also have "\<dots> = map_of (AList.update k v jar) ++ map_of (rev cs)"
    by (rule Cons.IH)
  also have "\<dots> = map_of jar ++ map_of (rev (c # cs))"
    by (simp add: c update_conv' map_add_upd_left fun_eq_iff map_add_def split: option.splits)
  finally show ?case .
qed

lemma map_of_update_sid:
  "map_of al k = Some old \<Longrightarrow> sid v = sid old \<Longrightarrow>
   map (\<lambda>x. sid (snd x)) (AList.update k v al) = map (\<lambda>x. sid (snd x)) al"
  by (induction al) (auto split: if_splits)

lemma map_of_update_keys:
  "map_of al k = Some old \<Longrightarrow> map fst (AList.update k v al) = map fst al"
  by (induction al) (auto split: if_splits)

lemma set_update_sids:
  "map_of al k = Some old \<Longrightarrow> sid v = sid old \<Longrightarrow>
   (\<lambda>x. sid (snd x)) ` set (AList.update k v al) = (\<lambda>x. sid (snd x)) ` set al"
  using map_of_update_sid[of al k old v] by (metis image_set)

lemma pool_no_sharing:
  assumes "pool_ok s" "h1 \<noteq> h2" "map_of (sessions s) h1 = Some a" "map_of (sessions s) h2 = Some b"
  shows "sid a \<noteq> sid b"
proof -
  have ia: "(h1, a) \<in> set (sessions s)" and ib: "(h2, b) \<in> set (sessions s)"
    using assms by (auto dest: map_of_SomeD)
  have d: "distinct (map (\<lambda>x. sid (snd x)) (sessions s))" using assms by (simp add: pool_ok_def)
  have "inj_on (\<lambda>x. sid (snd x)) (set (sessions s))"
    using d by (simp add: distinct_map)
  from inj_onD[OF this, of "(h1, a)" "(h2, b)"] show ?thesis
    using ia ib assms(2) by auto
qed

lemma acquire_cached:
  assumes "map_of (sessions s) (url_host req) = Some y"
  shows "acquire req s =
     (case req_cookies req of
        None \<Rightarrow> (y, s)
      | Some cs \<Rightarrow>
          (y\<lparr>cookie_jar := update_cookies (cookie_jar y) cs\<rparr>,
           s\<lparr>sessions := AList.update (url_host req)
                (y\<lparr>cookie_jar := update_cookies (cookie_jar y) cs\<rparr>) (sessions s)\<rparr>))"
  using assms by (simp add: acquire_def Let_def split: option.splits)

lemma acquire_new:
  assumes "map_of (sessions s) (url_host req) = None"
  shows "acquire req s =
     (ClientSession (created s) (req_cookies req),
      emit [NewSession (created s) (url_host req)]
        (s\<lparr>sessions := sessions s @ [(url_host req, ClientSession (created s) (req_cookies req))],
           created := Suc (created s)\<rparr>))"
  using assms by (simp add: acquire_def Let_def ClientSession_def)

lemma pool_ok_acquire:
  assumes ok: "pool_ok s"
  shows "pool_ok (snd (acquire req s))"
proof (cases "map_of (sessions s) (url_host req)")
  case None
  then have notin: "url_host req \<notin> fst ` set (sessions s)"
    by (simp add: map_of_eq_None_iff)
  have fresh: "created s \<notin> (\<lambda>x. sid (snd x)) ` set (sessions s)"
    using ok by (auto simp: pool_ok_def)
  show ?thesis
    using ok notin fresh unfolding acquire_new[OF None]
    by (auto simp: pool_ok_def emit_def ClientSession_def less_Suc_eq)
next
  case (Some y)
  show ?thesis
  proof (cases "req_cookies req")
    case None
    then show ?thesis using ok by (simp add: acquire_cached[OF Some])
  next
    case (Some cs)
    let ?y = "y\<lparr>cookie_jar := update_cookies (cookie_jar y) cs\<rparr>"
    have sids: "map (\<lambda>x. sid (snd x)) (AList.update (url_host req) ?y (sessions s))
        = map (\<lambda>x. sid (snd x)) (sessions s)"
      by (rule map_of_update_sid[OF \<open>map_of (sessions s) (url_host req) = Some y\<close>]) simp
    have keys: "map fst (AList.update (url_host req) ?y (sessions s)) = map fst (sessions s)"
      by (rule map_of_update_keys[OF \<open>map_of (sessions s) (url_host req) = Some y\<close>])
    have img: "(\<lambda>x. sid (snd x)) ` set (AList.update (url_host req) ?y (sessions s))
        = (\<lambda>x. sid (snd x)) ` set (sessions s)"
      by (rule set_update_sids[OF \<open>map_of (sessions s) (url_host req) = Some y\<close>]) simp
    have bound: "\<forall>x\<in>set (AList.update (url_host req) ?y (sessions s)). sid (snd x) < created s"
    proof
      fix x assume "x \<in> set (AList.update (url_host req) ?y (sessions s))"
      then have "sid (snd x) \<in> (\<lambda>x. sid (snd x)) ` set (sessions s)"
        using img by blast
      then show "sid (snd x) < created s" using ok by (auto simp: pool_ok_def)
    qed
    show ?thesis
      using ok sids keys bound
      by (simp add: acquire_cached[OF \<open>map_of (sessions s) (url_host req) = Some y\<close>] Some pool_ok_def)
  qed
qed

lemma map_of_acquire:
  "map_of (sessions (snd (acquire req s))) = (map_of (sessions s))(url_host req \<mapsto> fst (acquire req s))"
proof (cases "map_of (sessions s) (url_host req)")
  case None
  then show ?thesis
    by (simp add: acquire_new emit_def fun_eq_iff map_add_def split: option.splits)
next
  case (Some y)
  then show ?thesis
    by (cases "req_cookies req") (auto simp: acquire_cached update_conv' fun_eq_iff)
qed

lemma raw_request_trace:
  "trace (snd (raw_request t (RequestV req) s))
     = trace (snd (acquire req s)) @ [SessionRequest (sid (fst (acquire req s))) (make_kwargs req s)]"
  by (cases "acquire req s")
     (simp add: raw_request_def Let_def emit_def split: sum.splits)

text \<open>
  Claim C6. Take a request and the session \<open>_request\<close> acquires for it. When the pool
  holds a session for the request's host, that very session object is used and none is
  created; when the request carries cookies, the jar afterwards holds, for every name,
  the request's value if the request names it and the old value otherwise. When the
  pool holds none, a new session object is created, seeded with exactly the request's
  cookies. Either way the pool maps the host to the session used, the other hosts keep
  theirs, the network call goes out on that session, and no two hosts of the pool ever
  hold the same session object.
\<close>

theorem session_per_host:
  assumes ok: "pool_ok s" and acq: "acquire req s = (x, s')"
  shows "(\<forall>y. map_of (sessions s) (url_host req) = Some y \<longrightarrow>
            sid x = sid y \<and> created s' = created s \<and> trace s' = trace s
            \<and> map fst (sessions s') = map fst (sessions s)
            \<and> (\<forall>name. map_of (cookie_jar x) name =
                  (case req_cookies req of
                     None \<Rightarrow> map_of (cookie_jar y) name
                   | Some cs \<Rightarrow>
                       (case map_of (rev cs) name of
                          Some v \<Rightarrow> Some v
                        | None \<Rightarrow> map_of (cookie_jar y) name))))
    \<and> (map_of (sessions s) (url_host req) = None \<longrightarrow>
            sid x = created s
            \<and> (\<forall>h y. map_of (sessions s) h = Some y \<longrightarrow> sid y \<noteq> sid x)
            \<and> trace s' = trace s @ [NewSession (sid x) (url_host req)]
            \<and> (\<forall>name. map_of (cookie_jar x) name =
                  (case req_cookies req of None \<Rightarrow> None | Some cs \<Rightarrow> map_of (rev cs) name)))
    \<and> map_of (sessions s') (url_host req) = Some x
    \<and> (\<forall>h. h \<noteq> url_host req \<longrightarrow> map_of (sessions s') h = map_of (sessions s) h)
    \<and> pool_ok s'
    \<and> (\<forall>h1 h2 a b. h1 \<noteq> h2 \<and> map_of (sessions s') h1 = Some a \<and> map_of (sessions s') h2 = Some b
          \<longrightarrow> sid a \<noteq> sid b)
    \<and> (\<forall>t. trace (snd (raw_request t (RequestV req) s))
          = trace s' @ [SessionRequest (sid x) (make_kwargs req s)])
    \<and> pool_ok (init s0)"
proof -
  have x: "x = fst (acquire req s)" and s': "s' = snd (acquire req s)"
    using acq by simp_all
  have cached: "\<forall>y. map_of (sessions s) (url_host req) = Some y \<longrightarrow>
            sid x = sid y \<and> created s' = created s \<and> trace s' = trace s
            \<and> map fst (sessions s') = map fst (sessions s)
            \<and> (\<forall>name. map_of (cookie_jar x) name =
                  (case req_cookies req of
                     None \<Rightarrow> map_of (cookie_jar y) name
                   | Some cs \<Rightarrow>
                       (case map_of (rev cs) name of
                          Some v \<Rightarrow> Some v
                        | None \<Rightarrow> map_of (cookie_jar y) name)))"
  proof (intro allI impI)
    fix y assume y: "map_of (sessions s) (url_host req) = Some y"
    show "sid x = sid y \<and> created s' = created s \<and> trace s' = trace s
            \<and> map fst (sessions s') = map fst (sessions s)
            \<and> (\<forall>name. map_of (cookie_jar x) name =
                  (case req_cookies req of
                     None \<Rightarrow> map_of (cookie_jar y) name
                   | Some cs \<Rightarrow>
                       (case map_of (rev cs) name of
                          Some v \<Rightarrow> Some v
                        | None \<Rightarrow> map_of (cookie_jar y) name)))"
      unfolding x s'
      by (cases "req_cookies req")
         (simp_all add: acquire_cached[OF y] map_of_update_keys[OF y] update_cookies_map_of
            map_add_def)
  qed
  have new: "map_of (sessions s) (url_host req) = None \<longrightarrow>
            sid x = created s
            \<and> (\<forall>h y. map_of (sessions s) h = Some y \<longrightarrow> sid y \<noteq> sid x)
            \<and> trace s' = trace s @ [NewSession (sid x) (url_host req)]
            \<and> (\<forall>name. map_of (cookie_jar x) name =
                  (case req_cookies req of None \<Rightarrow> None | Some cs \<Rightarrow> map_of (rev cs) name))"
  proof
    assume n: "map_of (sessions s) (url_host req) = None"
    have fresh: "\<forall>h y. map_of (sessions s) h = Some y \<longrightarrow> sid y \<noteq> created s"
    proof (intro allI impI)
      fix h y assume "map_of (sessions s) h = Some y"
      then have "(h, y) \<in> set (sessions s)" by (rule map_of_SomeD)
      then have "sid y < created s" using ok by (auto simp: pool_ok_def)
      then show "sid y \<noteq> created s" by simp
    qed
    show "sid x = created s
            \<and> (\<forall>h y. map_of (sessions s) h = Some y \<longrightarrow> sid y \<noteq> sid x)
            \<and> trace s' = trace s @ [NewSession (sid x) (url_host req)]
            \<and> (\<forall>name. map_of (cookie_jar x) name =
                  (case req_cookies req of None \<Rightarrow> None | Some cs \<Rightarrow> map_of (rev cs) name))"
      unfolding x s' using fresh
      by (cases "req_cookies req")
         (simp_all add: acquire_new[OF n] ClientSession_def update_cookies_map_of)
  qed
  have m: "map_of (sessions s') = (map_of (sessions s))(url_host req \<mapsto> x)"
    unfolding x s' by (rule map_of_acquire)
  have here: "map_of (sessions s') (url_host req) = Some x" using m by simp
  have others: "\<forall>h. h \<noteq> url_host req \<longrightarrow> map_of (sessions s') h = map_of (sessions s) h"
    using m by simp
  have inv: "pool_ok s'" unfolding s' by (rule pool_ok_acquire[OF ok])
  have share: "\<forall>h1 h2 a b. h1 \<noteq> h2 \<and> map_of (sessions s') h1 = Some a \<and> map_of (sessions s') h2 = Some b
          \<longrightarrow> sid a \<noteq> sid b"
    using pool_no_sharing[OF inv] by blast
  have sendon: "\<forall>t. trace (snd (raw_request t (RequestV req) s))
          = trace s' @ [SessionRequest (sid x) (make_kwargs req s)]"
    unfolding x s' by (simp add: raw_request_trace)
  have start: "pool_ok (init s0)"
    by (simp add: pool_ok_def init_def time_time_def)
  from cached new here others inv share sendon start show ?thesis by blast
qed

theorem session_per_host_witness:
  "pool_ok ex_cookie_pool
   \<and> sid (fst (acquire ex_cookie_request ex_cookie_pool)) = 0
   \<and> map_of (cookie_jar (fst (acquire ex_cookie_request ex_cookie_pool))) ''token'' = Some ''new''
   \<and> map_of (cookie_jar (fst (acquire ex_cookie_request ex_cookie_pool))) ''seen'' = Some ''1''
   \<and> map_of (cookie_jar (fst (acquire ex_cookie_request ex_cookie_pool))) ''lang'' = Some ''en''
   \<and> created (snd (acquire ex_cookie_request ex_cookie_pool)) = 2
   \<and> pool_ok (snd (acquire ex_cookie_request ex_cookie_pool))
   \<and> sid (fst (acquire (ex_cookie_request\<lparr>url_host := Some ''c.example''\<rparr>) ex_cookie_pool)) = 2"
proof -
  have ok: "pool_ok ex_cookie_pool"
    by (simp add: pool_ok_def ex_cookie_pool_def ex_ant_def)
  have v: "map_of (sessions ex_cookie_pool) (url_host ex_cookie_request)
      = Some \<lparr>sid = 0, cookie_jar = [(''token'', ''old''), (''seen'', ''1'')]\<rparr>"
    "req_cookies ex_cookie_request = Some [(''token'', ''new''), (''lang'', ''en'')]"
    "created ex_cookie_pool = 2"
    by (simp_all add: ex_cookie_pool_def ex_cookie_request_def ex_request_def ex_ant_def)
  have w: "map_of (sessions ex_cookie_pool) (url_host (ex_cookie_request\<lparr>url_host := Some ''c.example''\<rparr>))
      = None"
    by (simp add: ex_cookie_pool_def ex_ant_def)
  note A = session_per_host[OF ok surjective_pairing, of ex_cookie_request]
  note B = session_per_host[OF ok surjective_pairing,
      of "ex_cookie_request\<lparr>url_host := Some ''c.example''\<rparr>"]
  from A v have a: "sid (fst (acquire ex_cookie_request ex_cookie_pool)) = 0
      \<and> created (snd (acquire ex_cookie_request ex_cookie_pool)) = 2
      \<and> (\<forall>name. map_of (cookie_jar (fst (acquire ex_cookie_request ex_cookie_pool))) name =
            (case map_of (rev [(''token'', ''new''), (''lang'', ''en'')]) name of
               Some v \<Rightarrow> Some v
             | None \<Rightarrow> map_of [(''token'', ''old''), (''seen'', ''1'')] name))"
    by simp
  from A have p: "pool_ok (snd (acquire ex_cookie_request ex_cookie_pool))" by blast
  from B w v have b: "sid (fst (acquire (ex_cookie_request\<lparr>url_host := Some ''c.example''\<rparr>) ex_cookie_pool)) = 2"
    by simp
  from ok a p b show ?thesis by simp
qed

subsection \<open>Retrying the send\<close>

declare retry_call.simps [simp del]

lemma transport_calls_append: "transport_calls (a @ b) = transport_calls a @ transport_calls b"
  by (induction a rule: transport_calls.induct) auto

lemma sleeps_append: "sleeps (a @ b) = sleeps a @ sleeps b"
  by (induction a rule: sleeps.induct) auto

lemma acquire_env:
  "same_env s (snd (acquire req s))" "sent (snd (acquire req s)) = sent s"
  "transport_calls (trace (snd (acquire req s))) = transport_calls (trace s)"
  "sleeps (trace (snd (acquire req s))) = sleeps (trace s)"
  by (auto simp: acquire_def Let_def same_env_def emit_def transport_calls_append sleeps_append
        split: option.splits)

lemma attempt_outcome_env:
  "same_env s s' \<Longrightarrow> sent s' = sent s + k \<Longrightarrow>
   attempt_outcome s' req j = attempt_outcome s req (k + j)"
  by (simp add: attempt_outcome_def same_env_def make_kwargs_def add.assoc)

lemma raw_request_step:
  "\<exists>s2. raw_request (request_timeout s) (RequestV req) s
           = (case attempt_outcome s req 0 of
                Inl e \<Rightarrow> Inl e | Inr a \<Rightarrow> Inr (convert_response a (written_request req (make_kwargs req s))), s2)
        \<and> same_env s s2 \<and> sent s2 = Suc (sent s)
        \<and> length (transport_calls (trace s2)) = Suc (length (transport_calls (trace s)))
        \<and> sleeps (trace s2) = sleeps (trace s)"
proof -
  obtain x s1 where a: "acquire req s = (x, s1)" by (cases "acquire req s")
  have e: "same_env s s1" "sent s1 = sent s"
      "transport_calls (trace s1) = transport_calls (trace s)" "sleeps (trace s1) = sleeps (trace s)"
    using acquire_env[where s = s and req = req] a by simp_all
  show ?thesis
    using e
    by (cases "net s (sent s) (request_timeout s) (make_kwargs req s)")
       (simp_all add: raw_request_def a Let_def attempt_outcome_def same_env_def emit_def
          transport_calls_append sleeps_append)
qed

lemma should_retry_outcome:
  "should_retry (case out of Inl e \<Rightarrow> Inl e | Inr a \<Rightarrow> Inr (convert_response a (written_request req (make_kwargs req s)))) = raised_or_5xx out"
  by (cases out) (simp_all add: convert_response_def)

lemma emit_same_env:
  "same_env s s2 \<Longrightarrow> same_env s (emit evs s2)" "sent (emit evs s2) = sent s2"
  by (simp_all add: same_env_def emit_def)

lemma retry_attempts:
  assumes "nat (stop - a) = m" and "request_timeout s = t"
    and "retry_call delay stop (raw_request t) a (RequestV req) s = (out, s')"
  shows "\<exists>n. 1 \<le> n \<and> int n \<le> max 1 (stop - a + 1)
     \<and> length (transport_calls (trace s')) = length (transport_calls (trace s)) + n
     \<and> (\<forall>j. Suc j < n \<longrightarrow> raised_or_5xx (attempt_outcome s req j))
     \<and> (int n < stop - a + 1 \<longrightarrow> \<not> raised_or_5xx (attempt_outcome s req (n - 1)))
     \<and> sleeps (trace s') = sleeps (trace s) @ replicate (n - 1) delay"
  using assms
proof (induction m arbitrary: a s out s')
  case 0
  obtain s2 where step: "raw_request (request_timeout s) (RequestV req) s
           = (case attempt_outcome s req 0 of
                Inl e \<Rightarrow> Inl e | Inr a \<Rightarrow> Inr (convert_response a (written_request req (make_kwargs req s))), s2)"
      and calls: "length (transport_calls (trace s2)) = Suc (length (transport_calls (trace s)))"
      and sl: "sleeps (trace s2) = sleeps (trace s)"
    using raw_request_step[of s req] by blast
  have stop: "stop \<le> a" using "0.prems"(1) by simp
  have "s' = s2"
    using "0.prems"(3) step stop "0.prems"(2)
    by (subst (asm) retry_call.simps) (auto split: if_splits)
  then have "1 \<le> (1::nat) \<and> int 1 \<le> max 1 (stop - a + 1)
     \<and> length (transport_calls (trace s')) = length (transport_calls (trace s)) + 1
     \<and> (\<forall>j. Suc j < 1 \<longrightarrow> raised_or_5xx (attempt_outcome s req j))
     \<and> (int 1 < stop - a + 1 \<longrightarrow> \<not> raised_or_5xx (attempt_outcome s req (1 - 1)))
     \<and> sleeps (trace s') = sleeps (trace s) @ replicate (1 - 1) delay"
    using calls sl stop by simp
  then show ?case by blast
next
  case (Suc m)
  obtain s2 where step: "raw_request (request_timeout s) (RequestV req) s
           = (case attempt_outcome s req 0 of
                Inl e \<Rightarrow> Inl e | Inr a \<Rightarrow> Inr (convert_response a (written_request req (make_kwargs req s))), s2)"
      and env: "same_env s s2" and sent: "sent s2 = Suc (sent s)"
      and calls: "length (transport_calls (trace s2)) = Suc (length (transport_calls (trace s)))"
      and sl: "sleeps (trace s2) = sleeps (trace s)"
    using raw_request_step[of s req] by blast
  have lt: "a < stop" and m: "nat (stop - (a + 1)) = m" using Suc.prems(1) by simp_all
  show ?case
  proof (cases "raised_or_5xx (attempt_outcome s req 0)")
    case False
    have "s' = s2"
      using Suc.prems(3) step Suc.prems(2) False
      by (subst (asm) retry_call.simps) (simp add: should_retry_outcome)
    then have "1 \<le> (1::nat) \<and> int 1 \<le> max 1 (stop - a + 1)
       \<and> length (transport_calls (trace s')) = length (transport_calls (trace s)) + 1
       \<and> (\<forall>j. Suc j < 1 \<longrightarrow> raised_or_5xx (attempt_outcome s req j))
       \<and> (int 1 < stop - a + 1 \<longrightarrow> \<not> raised_or_5xx (attempt_outcome s req (1 - 1)))
       \<and> sleeps (trace s') = sleeps (trace s) @ replicate (1 - 1) delay"
      using calls sl False by simp
    then show ?thesis by blast
  next
    case True
    let ?s3 = "emit [Sleep delay] s2"
    have rec: "retry_call delay stop (raw_request t) (a + 1) (RequestV req) ?s3 = (out, s')"
      using Suc.prems(3) step Suc.prems(2) True lt
      by (subst (asm) retry_call.simps) (simp add: should_retry_outcome)
    have t3: "request_timeout ?s3 = t"
      using env Suc.prems(2) by (simp add: same_env_def emit_def)
    have env3: "same_env s ?s3" and sent3: "sent ?s3 = sent s + 1"
      using env sent by (simp_all add: emit_same_env)
    have att: "\<And>j. attempt_outcome ?s3 req j = attempt_outcome s req (1 + j)"
      using attempt_outcome_env[OF env3 sent3] by simp
    have tr3: "length (transport_calls (trace ?s3)) = Suc (length (transport_calls (trace s)))"
        "sleeps (trace ?s3) = sleeps (trace s) @ [delay]"
      using calls sl by (simp_all add: emit_def transport_calls_append sleeps_append)
    from Suc.IH[OF m t3 rec] obtain n where n: "1 \<le> n" "int n \<le> max 1 (stop - (a + 1) + 1)"
        "length (transport_calls (trace s')) = length (transport_calls (trace ?s3)) + n"
        "\<forall>j. Suc j < n \<longrightarrow> raised_or_5xx (attempt_outcome ?s3 req j)"
        "int n < stop - (a + 1) + 1 \<longrightarrow> \<not> raised_or_5xx (attempt_outcome ?s3 req (n - 1))"
        "sleeps (trace s') = sleeps (trace ?s3) @ replicate (n - 1) delay"
      by blast
    have b1: "1 \<le> Suc n" by simp
    have b2: "int (Suc n) \<le> max 1 (stop - a + 1)" using n(2) lt by simp
    have b3: "length (transport_calls (trace s')) = length (transport_calls (trace s)) + Suc n"
      using n(3) tr3 by simp
    have b4: "\<forall>j. Suc j < Suc n \<longrightarrow> raised_or_5xx (attempt_outcome s req j)"
    proof (intro allI impI)
      fix j assume j: "Suc j < Suc n"
      show "raised_or_5xx (attempt_outcome s req j)"
      proof (cases j)
        case 0
        then show ?thesis using True by simp
      next
        case (Suc i)
        then have "Suc i < n" using j by simp
        then have "raised_or_5xx (attempt_outcome ?s3 req i)" using n(4) by blast
        then show ?thesis using att Suc by simp
      qed
    qed
    have b5: "int (Suc n) < stop - a + 1 \<longrightarrow> \<not> raised_or_5xx (attempt_outcome s req (Suc n - 1))"
    proof
      assume "int (Suc n) < stop - a + 1"
      then have "int n < stop - (a + 1) + 1" by simp
      then have "\<not> raised_or_5xx (attempt_outcome ?s3 req (n - 1))" using n(5) by blast
      then show "\<not> raised_or_5xx (attempt_outcome s req (Suc n - 1))"
        using att[of "n - 1"] n(1) by simp
    qed
    have rep: "replicate (Suc n - 1) delay = delay # replicate (n - 1) delay"
      using n(1) by (cases n) simp_all
    have b6: "sleeps (trace s') = sleeps (trace s) @ replicate (Suc n - 1) delay"
      unfolding rep using n(6) tr3 by simp
    from b1 b2 b3 b4 b5 b6 show ?thesis by blast
  qed
qed

text \<open>
  Claim C2. Sending a request makes at least one call of the transport. With
  \<open>request_retries\<close> positive it makes at most \<open>request_retries + 1\<close>; every attempt that
  was followed by another had raised or returned a status of 500 or more; and an attempt
  that ended the sequence before the budget was used up had returned a status below 500.
  Between two attempts lies one sleep of the fixed delay. With \<open>request_retries\<close> zero
  (or negative) the transport is called exactly once, nothing sleeps, and the outcome of
  that one call is the outcome of the send.
\<close>

theorem send_retries:
  assumes snd: "send (RequestV req) s = (out, s')"
  shows "\<exists>n. length (transport_calls (trace s')) = length (transport_calls (trace s)) + n
     \<and> 1 \<le> n
     \<and> (request_retries s > 0 \<longrightarrow>
           int n \<le> request_retries s + 1
           \<and> (\<forall>j. Suc j < n \<longrightarrow> raised_or_5xx (attempt_outcome s req j))
           \<and> (int n < request_retries s + 1 \<longrightarrow> \<not> raised_or_5xx (attempt_outcome s req (n - 1)))
           \<and> sleeps (trace s') = sleeps (trace s) @ replicate (n - 1) (request_retry_delay s))
     \<and> (request_retries s \<le> 0 \<longrightarrow>
           n = 1 \<and> sleeps (trace s') = sleeps (trace s)
           \<and> out = (case attempt_outcome s req 0 of
                      Inl e \<Rightarrow> Inl e | Inr a \<Rightarrow> Inr (convert_response a (written_request req (make_kwargs req s)))))"
proof (cases "request_retries s > 0")
  case True
  have r: "retry_call (request_retry_delay s) (request_retries s + 1)
      (raw_request (request_timeout s)) 1 (RequestV req) s = (out, s')"
    using snd True by (simp add: send_def make_retry_decorator_def timeout_wrapper_def Let_def)
  from retry_attempts[OF refl refl r] obtain n where n: "1 \<le> n"
      "int n \<le> max 1 (request_retries s + 1 - 1 + 1)"
      "length (transport_calls (trace s')) = length (transport_calls (trace s)) + n"
      "\<forall>j. Suc j < n \<longrightarrow> raised_or_5xx (attempt_outcome s req j)"
      "int n < request_retries s + 1 - 1 + 1 \<longrightarrow> \<not> raised_or_5xx (attempt_outcome s req (n - 1))"
      "sleeps (trace s') = sleeps (trace s) @ replicate (n - 1) (request_retry_delay s)"
    by blast
  have "int n \<le> request_retries s + 1" using n(2) True by simp
  moreover have "int n < request_retries s + 1 \<longrightarrow> \<not> raised_or_5xx (attempt_outcome s req (n - 1))"
    using n(5) by simp
  ultimately show ?thesis using n True by auto
next
  case False
  obtain s2 where step: "raw_request (request_timeout s) (RequestV req) s
           = (case attempt_outcome s req 0 of
                Inl e \<Rightarrow> Inl e | Inr a \<Rightarrow> Inr (convert_response a (written_request req (make_kwargs req s))), s2)"
      and calls: "length (transport_calls (trace s2)) = Suc (length (transport_calls (trace s)))"
      and sl: "sleeps (trace s2) = sleeps (trace s)"
    using raw_request_step[of s req] by blast
  have "out = (case attempt_outcome s req 0 of
                Inl e \<Rightarrow> Inl e | Inr a \<Rightarrow> Inr (convert_response a (written_request req (make_kwargs req s))))" and "s' = s2"
    using snd False step by (simp_all add: send_def timeout_wrapper_def Let_def)
  then have "length (transport_calls (trace s')) = length (transport_calls (trace s)) + 1
     \<and> 1 \<le> (1::nat) \<and> sleeps (trace s') = sleeps (trace s)
     \<and> out = (case attempt_outcome s req 0 of
                Inl e \<Rightarrow> Inl e | Inr a \<Rightarrow> Inr (convert_response a (written_request req (make_kwargs req s))))"
    using calls sl by simp
  then show ?thesis using False by auto
qed

theorem send_retries_witness:
  "request_retries ex_flaky = 3
   \<and> raised_or_5xx (attempt_outcome ex_flaky ex_request 0)
   \<and> raised_or_5xx (attempt_outcome ex_flaky ex_request 1)
   \<and> \<not> raised_or_5xx (attempt_outcome ex_flaky ex_request 2)
   \<and> length (transport_calls (trace (snd (send (RequestV ex_request) ex_flaky)))) = 3
   \<and> sleeps (trace (snd (send (RequestV ex_request) ex_flaky))) = [5, 5]
   \<and> length (transport_calls (trace (snd (send (RequestV ex_request)
        (ex_flaky\<lparr>request_retries := 0\<rparr>))))) = 1"
proof -
  let ?s' = "snd (send (RequestV ex_request) ex_flaky)"
  let ?z = "ex_flaky\<lparr>request_retries := 0\<rparr>"
  have c: "request_retries ex_flaky = 3" "request_retry_delay ex_flaky = 5"
      "trace ex_flaky = []" "request_retries ?z = 0" "trace ?z = []"
    by (simp_all add: ex_flaky_def ex_ant_def)
  have r: "raised_or_5xx (attempt_outcome ex_flaky ex_request 0)"
      "raised_or_5xx (attempt_outcome ex_flaky ex_request 1)"
      "\<not> raised_or_5xx (attempt_outcome ex_flaky ex_request 2)"
    by (simp_all add: attempt_outcome_def ex_flaky_def ex_ant_def ex_ok_def)
  from send_retries[OF surjective_pairing, where req = ex_request and s = ex_flaky] c
  obtain n where n: "length (transport_calls (trace ?s')) = n" "1 \<le> n" "int n \<le> 4"
      "\<forall>j. Suc j < n \<longrightarrow> raised_or_5xx (attempt_outcome ex_flaky ex_request j)"
      "int n < 4 \<longrightarrow> \<not> raised_or_5xx (attempt_outcome ex_flaky ex_request (n - 1))"
      "sleeps (trace ?s') = replicate (n - 1) 5"
    by auto
  consider "n = 1" | "n = 2" | "n = 3" | "n = 4" using n(2,3) by linarith
  then have n3: "n = 3"
  proof cases
    case 1
    then show ?thesis using n(5) r(1) by simp
  next
    case 2
    then show ?thesis using n(5) r(2) by simp
  next
    case 3
    then show ?thesis .
  next
    case 4
    then have "raised_or_5xx (attempt_outcome ex_flaky ex_request 2)"
      using n(4)[rule_format, of 2] by simp
    then show ?thesis using r(3) by simp
  qed
  from send_retries[OF surjective_pairing, where req = ex_request and s = ?z] c
  have z: "length (transport_calls (trace (snd (send (RequestV ex_request) ?z)))) = 1"
    by auto
  have "replicate (3 - 1) (5::real) = [5, 5]" by (simp add: numeral_2_eq_2)
  then show ?thesis using c r n(1,6) n3 z by simp
qed

end
